theory Spec2Isabelle
  imports Complex_Main "HOL-Library.Signed_Division" "HOL-Library.Product_Lexorder"
    "HOL-Library.Multiset" "HOL-Library.Word"
begin

section \<open>Machine integers and failures\<close>

text \<open>
  The 32-bit and 64-bit signed integers of the source are kept as mathematical integers
  together with their range; a narrowing \<^verbatim>\<open>static_cast<int32>\<close> wraps modulo \<open>2^32\<close>,
  and the operators \<^verbatim>\<open>/\<close> and \<^verbatim>\<open>%\<close> of C++ truncate towards zero (\<open>sdiv\<close>, \<open>smod\<close>).
  A failing \<^verbatim>\<open>CHECK\<close> aborts the process; it is the error value \<open>CheckFailed\<close>.
\<close>

datatype error = CheckFailed

definition int32_max :: int where
  "int32_max = 2147483647"

definition int32_min :: int where
  "int32_min = - 2147483648"

definition to_int32 :: "int \<Rightarrow> int" where
  "to_int32 x = (x + 2147483648) mod 4294967296 - 2147483648"

section \<open>The percentage calculator: \<^verbatim>\<open>PollManager::get_vote_percentage\<close>\<close>

text \<open>The first loop: the checked sum of the vote counts.\<close>

fun sum_votes :: "int list \<Rightarrow> int \<Rightarrow> error + int" where
  "sum_votes [] vsum = Inr vsum"
| "sum_votes (voter_count # rest) vsum =
     (if \<not> 0 \<le> voter_count then Inl CheckFailed
      else if \<not> voter_count \<le> int32_max - vsum then Inl CheckFailed
      else sum_votes rest (vsum + voter_count))"

text \<open>The branch "just round to the nearest", taken when the total is not the sum.\<close>

definition round_nearest :: "int \<Rightarrow> int \<Rightarrow> int" where
  "round_nearest total_voter_count voter_count =
     to_int32 (((voter_count * 200 + total_voter_count) sdiv total_voter_count) sdiv 2)"

text \<open>
  The loop that fills \<^verbatim>\<open>result\<close>, \<^verbatim>\<open>gap\<close> and \<^verbatim>\<open>percent_sum\<close>, with its two checks. The
  three values are returned together; the lists are built in index order.
\<close>

fun floor_percentages :: "int \<Rightarrow> int list \<Rightarrow> error + (int list \<times> int list \<times> int)" where
  "floor_percentages total_voter_count [] = Inr ([], [], 0)"
| "floor_percentages total_voter_count (voter_count # rest) =
     (let multiplied_voter_count = voter_count * 100;
          r = to_int32 (multiplied_voter_count sdiv total_voter_count)
      in if \<not> (0 \<le> r \<and> r \<le> 100) then Inl CheckFailed
         else let g = to_int32 ((r + 1) * total_voter_count - multiplied_voter_count)
              in if \<not> (0 \<le> g \<and> g \<le> total_voter_count) then Inl CheckFailed
                 else (case floor_percentages total_voter_count rest of
                         Inl e \<Rightarrow> Inl e
                       | Inr (result, gap, percent_sum) \<Rightarrow>
                           Inr (r # result, g # gap, r + percent_sum)))"

text \<open>
  \<^verbatim>\<open>struct Option { int32 pos = -1; int32 count = 0; }\<close> and the hash map from a vote
  count to its group: the position of the last option with that count and the number of
  options with it. The position \<^verbatim>\<open>narrow_cast<int32>(i)\<close> is the index itself.
\<close>

record Option =
  pos :: int
  count :: int

definition default_Option :: Option where
  "default_Option = \<lparr>pos = - 1, count = 0\<rparr>"

fun build_options :: "nat \<Rightarrow> int list \<Rightarrow> (int \<rightharpoonup> Option) \<Rightarrow> (int \<rightharpoonup> Option)" where
  "build_options i [] options = options"
| "build_options i (voter_count # rest) options =
     (let option = (case options voter_count of None \<Rightarrow> default_Option | Some opt \<Rightarrow> opt)
      in build_options (Suc i) rest
           (options(voter_count \<mapsto> \<lparr>pos = int i, count = count option + 1\<rparr>)))"

text \<open>The two \<^verbatim>\<open>continue\<close> conditions of the loop over the groups.\<close>

definition skipped :: "int \<Rightarrow> int list \<Rightarrow> int list \<Rightarrow> Option \<Rightarrow> bool" where
  "skipped total_voter_count gap result option \<longleftrightarrow>
     gap ! nat (pos option) > total_voter_count sdiv 2 \<or>
     (total_voter_count smod 2 = 0 \<and> gap ! nat (pos option) = total_voter_count sdiv 2 \<and>
      result ! nat (pos option) \<ge> 50)"

text \<open>
  The comparator of \<^verbatim>\<open>std::sort\<close> orders by smaller gap, then by larger count;
  \<open>sort_rank\<close> is its key. The source leaves two things to the C++ library: the order in
  which the hash map is iterated, and the order in which \<^verbatim>\<open>std::sort\<close> leaves groups that
  the comparator does not tell apart. In \<open>get_vote_percentage\<close> both are covered by one
  parameter, \<open>order\<close>, a list of keys that is sorted by the stable \<open>sort_key\<close>: the
  sequence that the iteration and the sort of a library produce is the stable sort of
  some such list (lemma \<open>library_refines\<close>), so what is proved for every \<open>order\<close> holds
  with every library. The two library calls themselves are modelled in
  \<open>get_vote_percentage_with\<close> below.
\<close>

definition sort_rank :: "int list \<Rightarrow> Option \<Rightarrow> int \<times> int" where
  "sort_rank gap option = (gap ! nat (pos option), - count option)"

definition sorted_options :: "int list \<Rightarrow> int \<Rightarrow> int list \<Rightarrow> int list \<Rightarrow> int list \<Rightarrow> Option list" where
  "sorted_options order total_voter_count voter_counts gap result =
     sort_key (sort_rank gap)
       (filter (\<lambda>option. \<not> skipped total_voter_count gap result option)
          (List.map_filter (build_options 0 voter_counts Map.empty) order))"

text \<open>The inner loop \<^verbatim>\<open>result[i]++\<close> over the options with the vote count of the group.\<close>

definition bump_group :: "int list \<Rightarrow> int \<Rightarrow> int list \<Rightarrow> int list" where
  "bump_group voter_counts p result =
     map (\<lambda>(voter_count, r). if voter_count = voter_counts ! nat p then r + 1 else r)
       (zip voter_counts result)"

text \<open>The greedy loop over \<^verbatim>\<open>sorted_options\<close>, with its \<^verbatim>\<open>break\<close>.\<close>

fun distribute :: "int list \<Rightarrow> Option list \<Rightarrow> int \<Rightarrow> int list \<Rightarrow> int list" where
  "distribute voter_counts [] left_percent result = result"
| "distribute voter_counts (option # rest) left_percent result =
     (if count option \<le> left_percent
      then (let left_percent' = left_percent - count option;
                result' = bump_group voter_counts (pos option) result
            in if left_percent' = 0 then result'
               else distribute voter_counts rest left_percent' result')
      else distribute voter_counts rest left_percent result)"

definition get_vote_percentage :: "int list \<Rightarrow> int list \<Rightarrow> int \<Rightarrow> error + int list" where
  "get_vote_percentage order voter_counts total_voter_count =
     (case sum_votes voter_counts 0 of
        Inl e \<Rightarrow> Inl e
      | Inr vsum \<Rightarrow>
          (let total = (if total_voter_count > vsum then vsum else total_voter_count)
           in if total = 0 then Inr (replicate (length voter_counts) 0)
              else if total \<noteq> vsum then Inr (map (round_nearest total) voter_counts)
              else (case floor_percentages total voter_counts of
                      Inl e \<Rightarrow> Inl e
                    | Inr (result, gap, percent_sum) \<Rightarrow>
                        if \<not> (0 \<le> percent_sum \<and> percent_sum \<le> 100) then Inl CheckFailed
                        else if percent_sum = 100 then Inr result
                        else Inr (distribute voter_counts
                                    (sorted_options order total voter_counts gap result)
                                    (100 - percent_sum) result))))"

subsection \<open>The function with its library calls\<close>

text \<open>
  The hash map is local to the call, its keys are \<^verbatim>\<open>int32\<close> values inserted in index
  order, and the comparator reads \<^verbatim>\<open>gap\<close> and \<^verbatim>\<open>count\<close> only: the two library calls read
  nothing but their arguments, no seed, no address and no clock. A build of the library
  is therefore two functions: \<open>iterate_map\<close> takes the keys in the order in which
  \<^verbatim>\<open>options[voter_counts[i]]\<close> inserts them and gives the keys in the order in which
  \<^verbatim>\<open>for (auto option : options)\<close> visits them, and \<open>std_sort\<close> takes the comparator and
  the sequence and gives the sorted sequence.
\<close>

record cxx_library =
  iterate_map :: "int list \<Rightarrow> int list"
  std_sort :: "(Option \<Rightarrow> Option \<Rightarrow> bool) \<Rightarrow> Option list \<Rightarrow> Option list"

text \<open>The lambda handed to \<^verbatim>\<open>std::sort\<close>.\<close>

definition sort_compare :: "int list \<Rightarrow> Option \<Rightarrow> Option \<Rightarrow> bool" where
  "sort_compare gap lhs rhs =
     (if gap ! nat (pos lhs) \<noteq> gap ! nat (pos rhs)
      then gap ! nat (pos lhs) < gap ! nat (pos rhs)
      else count lhs > count rhs)"

definition sorted_options_with ::
  "cxx_library \<Rightarrow> int \<Rightarrow> int list \<Rightarrow> int list \<Rightarrow> int list \<Rightarrow> Option list" where
  "sorted_options_with lib total_voter_count voter_counts gap result =
     std_sort lib (sort_compare gap)
       (filter (\<lambda>option. \<not> skipped total_voter_count gap result option)
          (List.map_filter (build_options 0 voter_counts Map.empty)
             (iterate_map lib voter_counts)))"

definition get_vote_percentage_with :: "cxx_library \<Rightarrow> int list \<Rightarrow> int \<Rightarrow> error + int list" where
  "get_vote_percentage_with lib voter_counts total_voter_count =
     (case sum_votes voter_counts 0 of
        Inl e \<Rightarrow> Inl e
      | Inr vsum \<Rightarrow>
          (let total = (if total_voter_count > vsum then vsum else total_voter_count)
           in if total = 0 then Inr (replicate (length voter_counts) 0)
              else if total \<noteq> vsum then Inr (map (round_nearest total) voter_counts)
              else (case floor_percentages total voter_counts of
                      Inl e \<Rightarrow> Inl e
                    | Inr (result, gap, percent_sum) \<Rightarrow>
                        if \<not> (0 \<le> percent_sum \<and> percent_sum \<le> 100) then Inl CheckFailed
                        else if percent_sum = 100 then Inr result
                        else Inr (distribute voter_counts
                                    (sorted_options_with lib total voter_counts gap result)
                                    (100 - percent_sum) result))))"

text \<open>
  What the C++ standard asks of the two calls: the iteration visits every key once, and
  \<^verbatim>\<open>std::sort\<close> returns a permutation in which no element is less than one before it.
\<close>

definition library_ok :: "cxx_library \<Rightarrow> bool" where
  "library_ok lib \<longleftrightarrow>
     (\<forall>keys. distinct (iterate_map lib keys) \<and> set (iterate_map lib keys) = set keys) \<and>
     (\<forall>gap xs. mset (std_sort lib (sort_compare gap) xs) = mset xs \<and>
               sorted_wrt (\<lambda>a b. \<not> sort_compare gap b a) (std_sort lib (sort_compare gap) xs))"

text \<open>
  A library for the examples: it visits the newest key first and sorts by insertion.
\<close>

fun insert_sorted :: "('a \<Rightarrow> 'a \<Rightarrow> bool) \<Rightarrow> 'a \<Rightarrow> 'a list \<Rightarrow> 'a list" where
  "insert_sorted lt x [] = [x]"
| "insert_sorted lt x (y # ys) =
     (if \<not> lt y x then x # y # ys else y # insert_sorted lt x ys)"

definition insertion_sort :: "('a \<Rightarrow> 'a \<Rightarrow> bool) \<Rightarrow> 'a list \<Rightarrow> 'a list" where
  "insertion_sort lt xs = foldr (insert_sorted lt) xs []"

definition example_library :: cxx_library where
  "example_library = \<lparr>iterate_map = (\<lambda>keys. remdups (rev keys)), std_sort = insertion_sort\<rparr>"

text \<open>Another library, which visits the oldest key first.\<close>

definition oldest_first_library :: cxx_library where
  "oldest_first_library = \<lparr>iterate_map = (\<lambda>keys. rev (remdups (rev keys))), std_sort = insertion_sort\<rparr>"

section \<open>The poll manager: data\<close>

text \<open>
  A poll id is the 64-bit integer inside \<^verbatim>\<open>PollId\<close>; a \<^verbatim>\<open>FullMessageId\<close> is a dialog id
  with a message id. A \<^verbatim>\<open>Promise<Unit>\<close> is named by a number, and resolving it is an
  effect recorded in the state; \<^verbatim>\<open>Status::Error(code, message)\<close> is a \<open>status\<close>.
\<close>

type_synonym PollId = int
type_synonym FullMessageId = "int \<times> int"
type_synonym promise = nat
type_synonym NetQueryRef = nat

datatype status = Status int string

datatype 'a result = Ok 'a | Error status

fun is_error :: "'a result \<Rightarrow> bool" where
  "is_error (Ok _) = False"
| "is_error (Error _) = True"

record PollOption =
  option_text :: string
  data :: string
  voter_count :: int
  is_chosen :: bool

record Poll =
  question :: string
  options :: "PollOption list"
  total_voter_count :: int
  is_closed :: bool

text \<open>
  The fields of \<^verbatim>\<open>PendingAnswer\<close> carry the prefix \<open>pa_\<close> in place of the trailing
  underscore of the source, and the \<^verbatim>\<open>text\<close> of an option is \<open>option_text\<close>. The
  generation is the \<^verbatim>\<open>uint64\<close> the manager itself increments, a 64-bit word. A log event
  id is handed out by the binlog, which is not part of the manager; it is a natural
  number, 0 meaning none. An empty \<^verbatim>\<open>NetQueryRef\<close> is \<open>None\<close>.
\<close>

record PendingAnswer =
  pa_options :: "string list"
  pa_promises :: "promise list"
  pa_generation :: "64 word"
  pa_logevent_id :: nat
  pa_query_ref :: "NetQueryRef option"

definition default_PendingAnswer :: PendingAnswer where
  "default_PendingAnswer =
     \<lparr>pa_options = [], pa_promises = [], pa_generation = 0, pa_logevent_id = 0,
      pa_query_ref = None\<rparr>"

datatype log_event =
    SetPollAnswerLogEvent PollId FullMessageId "string list"
  | StopPollLogEvent PollId FullMessageId

text \<open>
  What the manager hands over with \<^verbatim>\<open>send_closure\<close> to a freshly created network actor:
  \<^verbatim>\<open>SetPollAnswerActor::send\<close> with the message, the option identifiers and the generation
  (the poll id stands for the query promise and for the pointer to the \<^verbatim>\<open>query_ref_\<close> of
  the pending answer of that poll), and \<^verbatim>\<open>StopPollActor::send\<close> with the message and the
  promise that erases the given log event before it resolves the caller's promise.
\<close>

datatype closure =
    SetPollAnswerActor_send PollId FullMessageId "string list" "64 word"
  | StopPollActor_send FullMessageId nat promise

datatype timeout_call =
    AddTimeoutIn PollId real
  | SetTimeoutIn PollId real
  | CancelTimeout PollId

text \<open>
  The state: the fields of \<^verbatim>\<open>PollManager\<close> that the modelled functions use, the session
  parameters they read (\<^verbatim>\<open>G()->close_flag()\<close>, \<^verbatim>\<open>use_message_db\<close>, \<^verbatim>\<open>is_bot()\<close>,
  \<^verbatim>\<open>is_online()\<close>), the two stores they write, and the effects they emit, each kept as the
  list of calls made so far. The \<^verbatim>\<open>unordered_set\<close> of the messages of a poll is kept as a
  list, in the order in which it is iterated.
\<close>

record PollManager =
  polls :: "PollId \<rightharpoonup> Poll"
  poll_messages :: "PollId \<rightharpoonup> FullMessageId list"
  pending_answers :: "PollId \<rightharpoonup> PendingAnswer"
  loaded_from_database_polls :: "PollId set"
  current_generation :: "64 word"
  close_flag :: bool
  use_message_db :: bool
  is_bot :: bool
  is_online :: bool
  binlog :: "nat \<rightharpoonup> log_event"
  binlog_last_id :: nat
  database :: "PollId \<rightharpoonup> Poll"
  promise_results :: "(promise \<times> unit result) list"
  content_updates :: "FullMessageId list"
  cancelled_queries :: "NetQueryRef list"
  sent_closures :: "closure list"
  timeout_calls :: "timeout_call list"
  received_updates :: "nat list"

section \<open>The poll manager: collaborators\<close>

definition set_value :: "promise \<Rightarrow> PollManager \<Rightarrow> PollManager" where
  "set_value p s = s\<lparr>promise_results := promise_results s @ [(p, Ok ())]\<rparr>"

definition set_error :: "promise \<Rightarrow> status \<Rightarrow> PollManager \<Rightarrow> PollManager" where
  "set_error p e s = s\<lparr>promise_results := promise_results s @ [(p, Error e)]\<rparr>"

definition set_result :: "promise \<Rightarrow> unit result \<Rightarrow> PollManager \<Rightarrow> PollManager" where
  "set_result p r s = s\<lparr>promise_results := promise_results s @ [(p, r)]\<rparr>"

text \<open>
  Modelled from the spec: the durable log, whose code is not in the source file. The
  spec gives its contract, \<^verbatim>\<open>append(kind, payload) -> entry_id\<close>,
  \<^verbatim>\<open>rewrite(entry_id, kind, payload) -> entry_id\<close> and \<^verbatim>\<open>erase(entry_id)\<close>, with 0 for "no
  entry": appending hands out the next positive id.
\<close>

definition binlog_add :: "log_event \<Rightarrow> PollManager \<Rightarrow> nat \<times> PollManager" where
  "binlog_add event s =
     (let new_id = Suc (binlog_last_id s)
      in (new_id, s\<lparr>binlog := (binlog s)(new_id \<mapsto> event), binlog_last_id := new_id\<rparr>))"

definition binlog_rewrite :: "nat \<Rightarrow> log_event \<Rightarrow> PollManager \<Rightarrow> PollManager" where
  "binlog_rewrite logevent_id event s = s\<lparr>binlog := (binlog s)(logevent_id \<mapsto> event)\<rparr>"

definition binlog_erase :: "nat \<Rightarrow> PollManager \<Rightarrow> PollManager" where
  "binlog_erase logevent_id s = s\<lparr>binlog := (binlog s)(logevent_id := None)\<rparr>"

text \<open>
  Modelled from the spec: the timeout scheduler (\<^verbatim>\<open>update_poll_timeout_\<close>), of which
  only the calls made by the manager matter here; each call is recorded.
\<close>

definition add_timeout_in :: "PollId \<Rightarrow> real \<Rightarrow> PollManager \<Rightarrow> PollManager" where
  "add_timeout_in poll_id timeout s =
     s\<lparr>timeout_calls := timeout_calls s @ [AddTimeoutIn poll_id timeout]\<rparr>"

definition set_timeout_in :: "PollId \<Rightarrow> real \<Rightarrow> PollManager \<Rightarrow> PollManager" where
  "set_timeout_in poll_id timeout s =
     s\<lparr>timeout_calls := timeout_calls s @ [SetTimeoutIn poll_id timeout]\<rparr>"

definition cancel_query :: "NetQueryRef \<Rightarrow> PollManager \<Rightarrow> PollManager" where
  "cancel_query query_ref s = s\<lparr>cancelled_queries := cancelled_queries s @ [query_ref]\<rparr>"

definition send_closure :: "closure \<Rightarrow> PollManager \<Rightarrow> PollManager" where
  "send_closure c s = s\<lparr>sent_closures := sent_closures s @ [c]\<rparr>"

section \<open>The poll manager: operations\<close>

definition is_local_poll_id :: "PollId \<Rightarrow> bool" where
  "is_local_poll_id poll_id \<longleftrightarrow> poll_id < 0 \<and> poll_id > int32_min"

definition get_poll :: "PollManager \<Rightarrow> PollId \<Rightarrow> Poll option" where
  "get_poll s poll_id = polls s poll_id"

definition notify_on_poll_update :: "PollId \<Rightarrow> PollManager \<Rightarrow> PollManager" where
  "notify_on_poll_update poll_id s =
     (case poll_messages s poll_id of
        None \<Rightarrow> s
      | Some full_message_ids \<Rightarrow> s\<lparr>content_updates := content_updates s @ full_message_ids\<rparr>)"

text \<open>
  \<^verbatim>\<open>save_poll\<close> writes the poll under the key made of \<^verbatim>\<open>"poll"\<close> and the id; the store is
  a map from the id.
\<close>

definition save_poll :: "Poll \<Rightarrow> PollId \<Rightarrow> PollManager \<Rightarrow> error + PollManager" where
  "save_poll poll poll_id s =
     (if is_local_poll_id poll_id then Inl CheckFailed
      else if \<not> use_message_db s then Inr s
      else Inr (s\<lparr>database := (database s)(poll_id \<mapsto> poll)\<rparr>))"

subsection \<open>\<^verbatim>\<open>set_poll_answer\<close>, \<^verbatim>\<open>do_set_poll_answer\<close>, \<^verbatim>\<open>on_set_poll_answer\<close>\<close>

text \<open>
  The loop of \<^verbatim>\<open>set_poll_answer\<close> that turns option indices into option identifiers;
  \<open>None\<close> is its early return with "Invalid option id specified". The index is
  \<^verbatim>\<open>static_cast<size_t>(option_id)\<close>: for a negative \<^verbatim>\<open>int32\<close> that is at least
  \<open>2^64 - 2^31\<close>, beyond the size of any vector, so a negative index is out of range.
\<close>

fun translate_options :: "PollOption list \<Rightarrow> int list \<Rightarrow> string list option" where
  "translate_options poll_options [] = Some []"
| "translate_options poll_options (option_id # rest) =
     (if option_id < 0 \<or> length poll_options \<le> nat option_id then None
      else (case translate_options poll_options rest of
              None \<Rightarrow> None
            | Some chosen \<Rightarrow> Some (data (poll_options ! nat option_id) # chosen)))"

text \<open>The branch of \<^verbatim>\<open>do_set_poll_answer\<close> that adds or rewrites the log event.\<close>

definition log_poll_answer ::
  "PollId \<Rightarrow> FullMessageId \<Rightarrow> string list \<Rightarrow> nat \<Rightarrow> PendingAnswer \<Rightarrow> PollManager
     \<Rightarrow> error + (nat \<times> PollManager)" where
  "log_poll_answer poll_id full_message_id chosen logevent_id pending_answer s =
     (if logevent_id = 0 \<and> use_message_db s
      then (let logevent = SetPollAnswerLogEvent poll_id full_message_id chosen
            in if pa_generation pending_answer = 0
               then (if pa_logevent_id pending_answer \<noteq> 0 then Inl CheckFailed
                     else Inr (binlog_add logevent s))
               else (if pa_logevent_id pending_answer = 0 then Inl CheckFailed
                     else Inr (pa_logevent_id pending_answer,
                               binlog_rewrite (pa_logevent_id pending_answer) logevent s)))
      else Inr (logevent_id, s))"

text \<open>
  The branch that cancels the request in flight and resolves its promises with success.
  It returns the pending answer with the query reference and the promises cleared.
\<close>

definition supersede :: "PendingAnswer \<Rightarrow> PollManager \<Rightarrow> error + (PendingAnswer \<times> PollManager)" where
  "supersede pending_answer s =
     (if pa_promises pending_answer \<noteq> []
      then (case pa_query_ref pending_answer of
              None \<Rightarrow> Inl CheckFailed
            | Some query_ref \<Rightarrow>
                Inr (pending_answer\<lparr>pa_query_ref := None, pa_promises := []\<rparr>,
                     fold set_value (pa_promises pending_answer) (cancel_query query_ref s)))
      else Inr (pending_answer, s))"

definition do_set_poll_answer ::
  "PollId \<Rightarrow> FullMessageId \<Rightarrow> string list \<Rightarrow> nat \<Rightarrow> promise \<Rightarrow> PollManager
     \<Rightarrow> error + PollManager" where
  "do_set_poll_answer poll_id full_message_id chosen logevent_id promise s =
     (let pending_answer =
            (case pending_answers s poll_id of None \<Rightarrow> default_PendingAnswer | Some pa \<Rightarrow> pa)
      in if pa_promises pending_answer \<noteq> [] \<and> pa_options pending_answer = chosen
         then Inr (s\<lparr>pending_answers := (pending_answers s)(poll_id \<mapsto>
                      pending_answer\<lparr>pa_promises := pa_promises pending_answer @ [promise]\<rparr>)\<rparr>)
         else if \<not> (pa_logevent_id pending_answer = 0 \<or> logevent_id = 0) then Inl CheckFailed
         else (case log_poll_answer poll_id full_message_id chosen logevent_id pending_answer s of
                 Inl e \<Rightarrow> Inl e
               | Inr (logevent_id', s1) \<Rightarrow>
                   (case supersede pending_answer s1 of
                      Inl e \<Rightarrow> Inl e
                    | Inr (pending_answer', s2) \<Rightarrow>
                        (let generation = current_generation s2 + 1;
                             s3 = s2\<lparr>current_generation := generation,
                                     pending_answers := (pending_answers s2)(poll_id \<mapsto>
                                       pending_answer'\<lparr>pa_options := chosen,
                                         pa_promises := pa_promises pending_answer' @ [promise],
                                         pa_generation := generation,
                                         pa_logevent_id := logevent_id'\<rparr>)\<rparr>
                         in Inr (send_closure
                                   (SetPollAnswerActor_send poll_id full_message_id chosen generation)
                                   (notify_on_poll_update poll_id s3))))))"

definition set_poll_answer ::
  "PollId \<Rightarrow> FullMessageId \<Rightarrow> int list \<Rightarrow> promise \<Rightarrow> PollManager \<Rightarrow> error + PollManager" where
  "set_poll_answer poll_id full_message_id option_ids promise s =
     (if length option_ids > 1
      then Inr (set_error promise (Status 400 ''Can't choose more than 1 option'') s)
      else if is_local_poll_id poll_id
      then Inr (set_error promise (Status 5 ''Poll can't be answered'') s)
      else (case get_poll s poll_id of
              None \<Rightarrow> Inl CheckFailed
            | Some poll \<Rightarrow>
                if is_closed poll
                then Inr (set_error promise (Status 400 ''Can't answer closed poll'') s)
                else (case translate_options (options poll) option_ids of
                        None \<Rightarrow>
                          Inr (set_error promise (Status 400 ''Invalid option id specified'') s)
                      | Some chosen \<Rightarrow>
                          do_set_poll_answer poll_id full_message_id chosen 0 promise s)))"

definition on_set_poll_answer ::
  "PollId \<Rightarrow> 64 word \<Rightarrow> unit result \<Rightarrow> PollManager \<Rightarrow> error + PollManager" where
  "on_set_poll_answer poll_id generation result s =
     (if close_flag s \<and> is_error result then Inr s
      else (case pending_answers s poll_id of
              None \<Rightarrow> Inr s
            | Some pending_answer \<Rightarrow>
                if pa_promises pending_answer = [] then Inl CheckFailed
                else if pa_generation pending_answer \<noteq> generation then Inr s
                else (let s1 = (if pa_logevent_id pending_answer \<noteq> 0
                                then binlog_erase (pa_logevent_id pending_answer) s else s);
                          s2 = fold (\<lambda>promise. set_result promise result)
                                 (pa_promises pending_answer) s1
                      in Inr (s2\<lparr>pending_answers := (pending_answers s2)(poll_id := None)\<rparr>))))"

text \<open>
  \<^verbatim>\<open>SetPollAnswerActor::send\<close> stores the reference of the query it creates through the
  pointer it was given, the \<^verbatim>\<open>query_ref_\<close> of the pending answer of the poll.
\<close>

definition store_query_ref :: "PollId \<Rightarrow> NetQueryRef \<Rightarrow> PollManager \<Rightarrow> PollManager" where
  "store_query_ref poll_id query_ref s =
     (case pending_answers s poll_id of
        None \<Rightarrow> s
      | Some pending_answer \<Rightarrow>
          s\<lparr>pending_answers := (pending_answers s)(poll_id \<mapsto>
               pending_answer\<lparr>pa_query_ref := Some query_ref\<rparr>)\<rparr>)"

subsection \<open>\<^verbatim>\<open>stop_poll\<close>, \<^verbatim>\<open>do_stop_poll\<close>, \<^verbatim>\<open>stop_local_poll\<close>\<close>

definition stop_local_poll :: "PollId \<Rightarrow> PollManager \<Rightarrow> error + PollManager" where
  "stop_local_poll poll_id s =
     (if \<not> is_local_poll_id poll_id then Inl CheckFailed
      else (case polls s poll_id of
              None \<Rightarrow> Inl CheckFailed
            | Some poll \<Rightarrow>
                if is_closed poll then Inr s
                else Inr (notify_on_poll_update poll_id
                            (s\<lparr>polls := (polls s)(poll_id \<mapsto> poll\<lparr>is_closed := True\<rparr>)\<rparr>))))"

definition do_stop_poll ::
  "PollId \<Rightarrow> FullMessageId \<Rightarrow> nat \<Rightarrow> promise \<Rightarrow> PollManager \<Rightarrow> PollManager" where
  "do_stop_poll poll_id full_message_id logevent_id promise s =
     (let (logevent_id', s1) =
            (if logevent_id = 0 \<and> use_message_db s
             then binlog_add (StopPollLogEvent poll_id full_message_id) s
             else (logevent_id, s))
      in send_closure (StopPollActor_send full_message_id logevent_id' promise) s1)"

definition stop_poll ::
  "PollId \<Rightarrow> FullMessageId \<Rightarrow> promise \<Rightarrow> PollManager \<Rightarrow> error + PollManager" where
  "stop_poll poll_id full_message_id promise s =
     (if is_local_poll_id poll_id
      then (case stop_local_poll poll_id s of
              Inl e \<Rightarrow> Inl e
            | Inr s1 \<Rightarrow> Inr (set_value promise s1))
      else (case polls s poll_id of
              None \<Rightarrow> Inl CheckFailed
            | Some poll \<Rightarrow>
                if is_closed poll then Inr (set_value promise s)
                else (let poll' = poll\<lparr>is_closed := True\<rparr>;
                          s1 = s\<lparr>current_generation := current_generation s + 1,
                                 polls := (polls s)(poll_id \<mapsto> poll')\<rparr>
                      in (case save_poll poll' poll_id (notify_on_poll_update poll_id s1) of
                            Inl e \<Rightarrow> Inl e
                          | Inr s2 \<Rightarrow> Inr (do_stop_poll poll_id full_message_id 0 promise s2)))))"

subsection \<open>\<^verbatim>\<open>get_polling_timeout\<close>, \<^verbatim>\<open>on_get_poll_results\<close>\<close>

text \<open>
  \<^verbatim>\<open>get_polling_timeout\<close> draws \<^verbatim>\<open>Random::fast(70, 100)\<close>; the draw is a parameter of the
  model. The arithmetic on \<^verbatim>\<open>double\<close> is read as arithmetic on real numbers.
\<close>

definition get_polling_timeout :: "PollManager \<Rightarrow> int \<Rightarrow> real" where
  "get_polling_timeout s random =
     (if is_online s then 60 else 30 * 60) * real_of_int random * 0.01"

definition get_poll_is_closed :: "PollManager \<Rightarrow> PollId \<Rightarrow> error + bool" where
  "get_poll_is_closed s poll_id =
     (case get_poll s poll_id of None \<Rightarrow> Inl CheckFailed | Some poll \<Rightarrow> Inr (is_closed poll))"

text \<open>
  The result of the query carries the updates of the server, named by a number; a
  successful and current result is passed on to \<^verbatim>\<open>on_get_updates\<close>.
\<close>

definition on_get_poll_results ::
  "PollId \<Rightarrow> 64 word \<Rightarrow> nat result \<Rightarrow> int \<Rightarrow> PollManager \<Rightarrow> error + PollManager" where
  "on_get_poll_results poll_id generation result random s =
     (case result of
        Error e \<Rightarrow>
          (case get_poll_is_closed s poll_id of
             Inl e \<Rightarrow> Inl e
           | Inr poll_is_closed \<Rightarrow>
               if \<not> poll_is_closed \<and> \<not> is_bot s
               then Inr (add_timeout_in poll_id (get_polling_timeout s random) s)
               else Inr s)
      | Ok updates \<Rightarrow>
          if generation \<noteq> current_generation s
          then (case get_poll_is_closed s poll_id of
                  Inl e \<Rightarrow> Inl e
                | Inr poll_is_closed \<Rightarrow>
                    if \<not> poll_is_closed \<and> \<not> is_bot s
                    then Inr (set_timeout_in poll_id 0 s)
                    else Inr s)
          else Inr (s\<lparr>received_updates := received_updates s @ [updates]\<rparr>))"

subsection \<open>\<^verbatim>\<open>get_poll_force\<close>, \<^verbatim>\<open>on_get_poll\<close>\<close>

text \<open>
  The objects received from the server: \<^verbatim>\<open>telegram_api::poll\<close> with its id, its closed
  flag, its question and its answers (text and option identifier), and
  \<^verbatim>\<open>telegram_api::pollResults\<close> with the flags \<^verbatim>\<open>MIN\<close> and \<^verbatim>\<open>TOTAL_VOTERS\<close>, the total and
  one \<^verbatim>\<open>pollAnswerVoters\<close> per reported option (flag \<^verbatim>\<open>CHOSEN\<close>, option identifier, voters).
\<close>

record ServerPoll =
  id_of :: int
  closed_flag :: bool
  question_of :: string
  answers_of :: "(string \<times> string) list"

record PollAnswerVoters =
  chosen_flag :: bool
  option_of :: string
  voters_of :: int

record PollResults =
  min_flag :: bool
  total_voters_flag :: bool
  total_voters_of :: int
  results_of :: "PollAnswerVoters list"

definition default_Poll :: Poll where
  "default_Poll = \<lparr>question = [], options = [], total_voter_count = 0, is_closed = False\<rparr>"

text \<open>\<^verbatim>\<open>PollId::is_valid\<close> (declared outside the source file): the id is not 0.\<close>

definition is_valid :: "PollId \<Rightarrow> bool" where
  "is_valid poll_id \<longleftrightarrow> poll_id \<noteq> 0"

definition on_load_poll_from_database ::
  "PollId \<Rightarrow> Poll option \<Rightarrow> PollManager \<Rightarrow> error + PollManager" where
  "on_load_poll_from_database poll_id stored s =
     (let s1 = s\<lparr>loaded_from_database_polls := insert poll_id (loaded_from_database_polls s)\<rparr>
      in if polls s1 poll_id \<noteq> None then Inl CheckFailed
         else (case stored of
                 None \<Rightarrow> Inr s1
               | Some poll \<Rightarrow> Inr (s1\<lparr>polls := (polls s1)(poll_id \<mapsto> poll)\<rparr>)))"

definition get_poll_force :: "PollId \<Rightarrow> PollManager \<Rightarrow> error + (Poll option \<times> PollManager)" where
  "get_poll_force poll_id s =
     (case polls s poll_id of
        Some poll \<Rightarrow> Inr (Some poll, s)
      | None \<Rightarrow>
          if \<not> use_message_db s then Inr (None, s)
          else if poll_id \<in> loaded_from_database_polls s then Inr (None, s)
          else (case on_load_poll_from_database poll_id (database s poll_id) s of
                  Inl e \<Rightarrow> Inl e
                | Inr s1 \<Rightarrow> Inr (polls s1 poll_id, s1)))"

definition get_poll_options :: "(string \<times> string) list \<Rightarrow> PollOption list" where
  "get_poll_options poll_options =
     map (\<lambda>(answer_text, answer_option).
            \<lparr>option_text = answer_text, data = answer_option, voter_count = 0, is_chosen = False\<rparr>)
       poll_options"

text \<open>
  The first three tests of \<^verbatim>\<open>on_get_poll\<close>: the id to work with, or \<open>None\<close> where the
  function returns the invalid \<^verbatim>\<open>PollId()\<close>.
\<close>

definition resolve_poll_id :: "PollId \<Rightarrow> ServerPoll option \<Rightarrow> PollId option" where
  "resolve_poll_id poll_id poll_server =
     (let poll_id1 = (case poll_server of
                        Some server \<Rightarrow> if \<not> is_valid poll_id then id_of server else poll_id
                      | None \<Rightarrow> poll_id)
      in if \<not> is_valid poll_id1 \<or> is_local_poll_id poll_id1 then None
         else (case poll_server of
                 Some server \<Rightarrow> if id_of server \<noteq> poll_id1 then None else Some poll_id1
               | None \<Rightarrow> Some poll_id1))"

text \<open>
  The part under \<^verbatim>\<open>if (poll_server != nullptr)\<close>: question, options and closed flag are
  taken from the server; the flag \<open>is_changed\<close> is threaded through.
\<close>

definition sync_option :: "PollOption \<times> (string \<times> string) \<Rightarrow> PollOption \<times> bool" where
  "sync_option = (\<lambda>(option, (answer_text, answer_option)).
     (let (option1, changed1) =
            (if option_text option \<noteq> answer_text
             then (option\<lparr>option_text := answer_text\<rparr>, True) else (option, False))
      in if data option1 \<noteq> answer_option
         then (option1\<lparr>data := answer_option, voter_count := 0, is_chosen := False\<rparr>, True)
         else (option1, changed1)))"

definition sync_poll :: "ServerPoll \<Rightarrow> Poll \<times> bool \<Rightarrow> Poll \<times> bool" where
  "sync_poll server = (\<lambda>(poll, is_changed).
     (let (poll1, changed1) =
            (if question poll \<noteq> question_of server
             then (poll\<lparr>question := question_of server\<rparr>, True) else (poll, is_changed));
          (poll2, changed2) =
            (if length (options poll1) \<noteq> length (answers_of server)
             then (poll1\<lparr>options := get_poll_options (answers_of server)\<rparr>, True)
             else (let synced = map sync_option (zip (options poll1) (answers_of server))
                   in (poll1\<lparr>options := map fst synced\<rparr>,
                       changed1 \<or> list_ex snd synced)))
      in if closed_flag server \<noteq> is_closed poll2
         then (poll2\<lparr>is_closed := closed_flag server\<rparr>, True) else (poll2, changed2)))"

text \<open>
  The body of the inner loop of the results merge, for one reported option and one
  option of the poll; \<open>n\<close> is \<^verbatim>\<open>poll->options.size()\<close> and \<open>poll_total\<close> is
  \<^verbatim>\<open>poll->total_voter_count\<close>. The clamps stand, as in the source, under the test that the
  reported count differs from the stored one.
\<close>

definition max_voter_count :: "nat \<Rightarrow> int" where
  "max_voter_count n = int32_max sdiv int n - 2"

definition merge_voters ::
  "bool \<Rightarrow> nat \<Rightarrow> PollAnswerVoters \<Rightarrow> PollOption \<times> int \<times> bool \<Rightarrow> PollOption \<times> int \<times> bool" where
  "merge_voters is_min n poll_result = (\<lambda>(option, poll_total, is_changed).
     if data option \<noteq> option_of poll_result then (option, poll_total, is_changed)
     else (let (option1, changed1) =
                 (if \<not> is_min \<and> chosen_flag poll_result \<noteq> is_chosen option
                  then (option\<lparr>is_chosen := chosen_flag poll_result\<rparr>, True)
                  else (option, is_changed))
           in if voters_of poll_result \<noteq> voter_count option1
              then (let count0 = voters_of poll_result;
                        count1 = (if count0 < 0 then 0 else count0);
                        count2 = (if is_chosen option1 \<and> count1 = 0 then 1 else count1);
                        poll_total1 = (if count2 > poll_total then count2 else poll_total);
                        count3 = (if count2 > max_voter_count n then max_voter_count n
                                  else count2)
                    in (option1\<lparr>voter_count := count3\<rparr>, poll_total1, True))
              else (option1, poll_total, changed1)))"

fun merge_result ::
  "bool \<Rightarrow> nat \<Rightarrow> PollAnswerVoters \<Rightarrow> PollOption list \<Rightarrow> int \<Rightarrow> bool
     \<Rightarrow> PollOption list \<times> int \<times> bool" where
  "merge_result is_min n poll_result [] poll_total is_changed = ([], poll_total, is_changed)"
| "merge_result is_min n poll_result (option # rest) poll_total is_changed =
     (let (option1, poll_total1, changed1) =
            merge_voters is_min n poll_result (option, poll_total, is_changed);
          (rest2, poll_total2, changed2) =
            merge_result is_min n poll_result rest poll_total1 changed1
      in (option1 # rest2, poll_total2, changed2))"

fun merge_results ::
  "bool \<Rightarrow> PollAnswerVoters list \<Rightarrow> PollOption list \<Rightarrow> int \<Rightarrow> bool
     \<Rightarrow> PollOption list \<times> int \<times> bool" where
  "merge_results is_min [] poll_options poll_total is_changed =
     (poll_options, poll_total, is_changed)"
| "merge_results is_min (poll_result # rest) poll_options poll_total is_changed =
     (let (options1, poll_total1, changed1) =
            merge_result is_min (length poll_options) poll_result poll_options poll_total is_changed
      in merge_results is_min rest options1 poll_total1 changed1)"

text \<open>
  The results part of \<^verbatim>\<open>on_get_poll\<close>: the total, the two loops and the last clamp of the
  total to the sum of the counts. The sum is exact: each count is at most
  \<open>max_voter_count n\<close>, so \<open>n\<close> of them stay below \<^verbatim>\<open>INT_MAX\<close>.
\<close>

definition merge_poll_results :: "PollResults \<Rightarrow> Poll \<times> bool \<Rightarrow> Poll \<times> bool" where
  "merge_poll_results poll_results = (\<lambda>(poll, is_changed).
     (let (poll1, changed1) =
            (if total_voters_flag poll_results \<and>
                total_voters_of poll_results \<noteq> total_voter_count poll
             then (poll\<lparr>total_voter_count :=
                          (if total_voters_of poll_results < 0 then 0
                           else total_voters_of poll_results)\<rparr>, True)
             else (poll, is_changed));
          (options2, total2, changed2) =
            merge_results (min_flag poll_results) (results_of poll_results)
              (options poll1) (total_voter_count poll1) changed1;
          poll2 = poll1\<lparr>options := options2, total_voter_count := total2\<rparr>;
          max_total_voter_count = sum_list (map voter_count (options poll2))
      in if results_of poll_results \<noteq> [] \<and> total_voters_flag poll_results \<and>
            total_voter_count poll2 > max_total_voter_count \<and> max_total_voter_count \<noteq> 0
         then (poll2\<lparr>total_voter_count := max_total_voter_count\<rparr>, changed2)
         else (poll2, changed2)))"

text \<open>
  \<^verbatim>\<open>on_get_poll\<close> returns the poll id, or the invalid id 0. The poll object is changed in
  place through a pointer into \<^verbatim>\<open>polls_\<close>; the model writes the new poll into the map.
\<close>

definition on_get_poll ::
  "PollId \<Rightarrow> ServerPoll option \<Rightarrow> PollResults option \<Rightarrow> int \<Rightarrow> PollManager
     \<Rightarrow> error + (PollId \<times> PollManager)" where
  "on_get_poll poll_id0 poll_server poll_results random s =
     (case resolve_poll_id poll_id0 poll_server of
        None \<Rightarrow> Inr (0, s)
      | Some poll_id \<Rightarrow>
          (case get_poll_force poll_id s of
             Inl e \<Rightarrow> Inl e
           | Inr (found, s1) \<Rightarrow>
               if found = None \<and> poll_server = None then Inr (0, s1)
               else (let poll0 = (case found of None \<Rightarrow> default_Poll | Some poll \<Rightarrow> poll);
                         synced = (case poll_server of
                                     None \<Rightarrow> (poll0, False)
                                   | Some server \<Rightarrow> sync_poll server (poll0, False))
                     in (case poll_results of
                           None \<Rightarrow> Inl CheckFailed
                         | Some results \<Rightarrow>
                             (let (poll, is_changed) = merge_poll_results results synced;
                                  s2 = s1\<lparr>polls := (polls s1)(poll_id \<mapsto> poll)\<rparr>;
                                  s3 = (if \<not> is_bot s2 \<and> \<not> is_closed poll
                                        then set_timeout_in poll_id
                                               (get_polling_timeout s2 random) s2
                                        else s2)
                              in if is_changed
                                 then (case save_poll poll poll_id
                                              (notify_on_poll_update poll_id s3) of
                                         Inl e \<Rightarrow> Inl e
                                       | Inr s4 \<Rightarrow> Inr (poll_id, s4))
                                 else Inr (poll_id, s3))))))"

subsection \<open>Invariants and example states\<close>

text \<open>
  Every pending answer the manager creates holds at least one promise
  (\<^verbatim>\<open>do_set_poll_answer\<close> pushes one before it returns, \<^verbatim>\<open>on_set_poll_answer\<close> erases the
  record it empties); \<^verbatim>\<open>on_set_poll_answer\<close> checks it.
\<close>

definition pending_wf :: "PollManager \<Rightarrow> bool" where
  "pending_wf s \<longleftrightarrow> (\<forall>poll_id pa. pending_answers s poll_id = Some pa \<longrightarrow> pa_promises pa \<noteq> [])"

text \<open>
  A submission is in flight when its record waits for the answer to a query that was
  created: it holds a promise and a query reference, its generation was taken from the
  counter (so it is not 0 and not beyond the counter), and it owns a log event when the
  message database is in use. These are the facts the checks of \<^verbatim>\<open>do_set_poll_answer\<close>
  rely on when a submission is superseded.
\<close>

definition in_flight :: "PollManager \<Rightarrow> PendingAnswer \<Rightarrow> bool" where
  "in_flight s pending_answer \<longleftrightarrow>
     pa_promises pending_answer \<noteq> [] \<and> pa_query_ref pending_answer \<noteq> None \<and>
     pa_generation pending_answer \<noteq> 0 \<and> pa_generation pending_answer \<le> current_generation s \<and>
     (use_message_db s \<longrightarrow> pa_logevent_id pending_answer \<noteq> 0)"

text \<open>
  States for the examples: an open poll 7 with two options shown in one message; the same
  after an empty selection was submitted with promise 1 and its query was created; and
  the poll closed.
\<close>

definition example_poll :: Poll where
  "example_poll =
     \<lparr>question = ''Q'',
      options = [\<lparr>option_text = ''A'', data = ''0'', voter_count = 0, is_chosen = False\<rparr>,
                 \<lparr>option_text = ''B'', data = ''1'', voter_count = 0, is_chosen = False\<rparr>],
      total_voter_count = 0, is_closed = False\<rparr>"

definition example_state :: PollManager where
  "example_state =
     \<lparr>polls = [7 \<mapsto> example_poll], poll_messages = [7 \<mapsto> [(3, 4)]],
      pending_answers = Map.empty, loaded_from_database_polls = {}, current_generation = 0,
      close_flag = False, use_message_db = True, is_bot = False, is_online = True,
      binlog = Map.empty, binlog_last_id = 0, database = Map.empty,
      promise_results = [], content_updates = [], cancelled_queries = [],
      sent_closures = [], timeout_calls = [], received_updates = []\<rparr>"

definition example_pending_answer :: PendingAnswer where
  "example_pending_answer =
     \<lparr>pa_options = [], pa_promises = [1], pa_generation = 1, pa_logevent_id = 1,
      pa_query_ref = Some 5\<rparr>"

definition example_voting_state :: PollManager where
  "example_voting_state =
     example_state\<lparr>pending_answers := [7 \<mapsto> example_pending_answer],
       current_generation := 1,
       binlog := [1 \<mapsto> SetPollAnswerLogEvent 7 (3, 4) []], binlog_last_id := 1,
       content_updates := [(3, 4)],
       sent_closures := [SetPollAnswerActor_send 7 (3, 4) [] 1]\<rparr>"

definition example_closed_state :: PollManager where
  "example_closed_state = example_state\<lparr>polls := [7 \<mapsto> example_poll\<lparr>is_closed := True\<rparr>]\<rparr>"

text \<open>
  Results in which the server marks option \<open>''0''\<close> as chosen and reports no voter for
  it, and poll 7 with that option chosen.
\<close>

definition chosen_without_voters :: PollResults where
  "chosen_without_voters =
     \<lparr>min_flag = False, total_voters_flag = True, total_voters_of = 0,
      results_of = [\<lparr>chosen_flag = True, option_of = ''0'', voters_of = 0\<rparr>]\<rparr>"

definition example_poll_chosen :: Poll where
  "example_poll_chosen =
     example_poll\<lparr>options :=
       [\<lparr>option_text = ''A'', data = ''0'', voter_count = 0, is_chosen = True\<rparr>,
        \<lparr>option_text = ''B'', data = ''1'', voter_count = 0, is_chosen = False\<rparr>]\<rparr>"

text \<open>
  Poll 7 after five votes for its first option, one of them the user's, and results in
  which the server reports a total of 3 while it repeats the 5 voters of that option.
\<close>

definition example_poll_voted :: Poll where
  "example_poll_voted =
     example_poll\<lparr>options :=
       [\<lparr>option_text = ''A'', data = ''0'', voter_count = 5, is_chosen = True\<rparr>,
        \<lparr>option_text = ''B'', data = ''1'', voter_count = 0, is_chosen = False\<rparr>],
       total_voter_count := 5\<rparr>"

definition total_below_option :: PollResults where
  "total_below_option =
     \<lparr>min_flag = False, total_voters_flag = True, total_voters_of = 3,
      results_of = [\<lparr>chosen_flag = True, option_of = ''0'', voters_of = 5\<rparr>]\<rparr>"

subsection \<open>Closed forms used in the statements\<close>

text \<open>
  In the fair branch entry \<open>i\<close> of \<^verbatim>\<open>result\<close> is the floor of the exact percentage and
  entry \<open>i\<close> of \<^verbatim>\<open>gap\<close> is what is missing to the next percent, both functions of the vote
  count alone.
\<close>

definition floor_percent :: "int \<Rightarrow> int \<Rightarrow> int" where
  "floor_percent t v = v * 100 div t"

definition gap_of :: "int \<Rightarrow> int \<Rightarrow> int" where
  "gap_of t v = (floor_percent t v + 1) * t - v * 100"

text \<open>
  A group record is right for the vote counts when its \<^verbatim>\<open>count\<close> is the number of options
  that have the vote count found at its \<^verbatim>\<open>pos\<close>; \<open>groups_upto\<close> is the loop invariant of
  the loop that fills the hash map.
\<close>

definition group_of :: "int list \<Rightarrow> Option \<Rightarrow> bool" where
  "group_of vcs option \<longleftrightarrow> count option = int (count_list vcs (vcs ! nat (pos option)))"

definition groups_upto :: "int list \<Rightarrow> (int \<rightharpoonup> Option) \<Rightarrow> bool" where
  "groups_upto prefix m \<longleftrightarrow>
     (\<forall>v. (m v = None \<longrightarrow> v \<notin> set prefix) \<and>
          (\<forall>opt. m v = Some opt \<longrightarrow>
             count opt = int (count_list prefix v) \<and> 0 \<le> pos opt \<and>
             nat (pos opt) < length prefix \<and> prefix ! nat (pos opt) = v))"

text \<open>
  An iteration order of the hash map lists each of its keys, the distinct vote counts,
  once. A group is eligible when neither \<^verbatim>\<open>continue\<close> applies to it. The vote counts are
  free of ties when no two eligible groups agree on both gap and number of members, that
  is, when the comparator of the sort tells all eligible groups apart.
\<close>

definition iteration_order :: "int list \<Rightarrow> int list \<Rightarrow> bool" where
  "iteration_order voter_counts order \<longleftrightarrow> distinct order \<and> set order = set voter_counts"

definition eligible :: "int \<Rightarrow> int \<Rightarrow> bool" where
  "eligible t v \<longleftrightarrow>
     \<not> (gap_of t v > t div 2 \<or> (t mod 2 = 0 \<and> gap_of t v = t div 2 \<and> floor_percent t v \<ge> 50))"

definition tie_free :: "int list \<Rightarrow> bool" where
  "tie_free voter_counts \<longleftrightarrow>
     (\<forall>v\<in>set voter_counts. \<forall>w\<in>set voter_counts.
        v \<noteq> w \<and> eligible (sum_list voter_counts) v \<and> eligible (sum_list voter_counts) w \<longrightarrow>
        \<not> (gap_of (sum_list voter_counts) v = gap_of (sum_list voter_counts) w \<and>
           count_list voter_counts v = count_list voter_counts w))"

section \<open>Proofs: the percentage calculator\<close>

lemma to_int32_id: "- 2147483648 \<le> x \<Longrightarrow> x \<le> 2147483647 \<Longrightarrow> to_int32 x = x"
  by (simp add: to_int32_def)

lemma sdiv_nonneg: "0 \<le> a \<Longrightarrow> 0 \<le> b \<Longrightarrow> a sdiv b = a div (b::int)"
  by (cases "a = 0"; cases "b = 0") (simp_all add: signed_divide_int_def sgn_if)

lemma smod_nonneg: "0 \<le> a \<Longrightarrow> 0 \<le> b \<Longrightarrow> a smod b = a mod (b::int)"
  by (cases "a = 0"; cases "b = 0") (simp_all add: signed_modulo_int_def sgn_if)

lemma sum_votes_ok:
  "\<forall>v\<in>set vs. 0 \<le> v \<Longrightarrow> acc + sum_list vs \<le> int32_max \<Longrightarrow>
   sum_votes vs acc = Inr (acc + sum_list vs)"
proof (induction vs arbitrary: acc)
  case Nil
  then show ?case by simp
next
  case (Cons v vs)
  have nn: "0 \<le> sum_list vs" using Cons.prems(1) by (simp add: sum_list_nonneg)
  have "v \<le> int32_max - acc" using Cons.prems(2) nn by simp
  moreover have "0 \<le> v" using Cons.prems(1) by simp
  moreover have "sum_votes vs (acc + v) = Inr (acc + v + sum_list vs)"
    using Cons.prems by (intro Cons.IH) (simp_all add: add.assoc)
  ultimately show ?case by (simp add: add.assoc)
qed

lemma sum_votes_total:
  "\<forall>v\<in>set vs. 0 \<le> v \<Longrightarrow> sum_list vs \<le> int32_max \<Longrightarrow> sum_votes vs 0 = Inr (sum_list vs)"
  using sum_votes_ok[of vs 0] by simp

lemma floor_percent_bounds:
  assumes "0 < t" "0 \<le> v" "v \<le> t"
  shows "0 \<le> floor_percent t v" "floor_percent t v \<le> 100"
proof -
  show "0 \<le> floor_percent t v" using assms by (simp add: floor_percent_def pos_imp_zdiv_nonneg_iff)
  have "v * 100 \<le> 100 * t" using assms by simp
  then have "v * 100 div t \<le> 100 * t div t" by (rule zdiv_mono1) (use assms in simp)
  then show "floor_percent t v \<le> 100" using assms by (simp add: floor_percent_def)
qed

lemma gap_of_eq: "gap_of t v = t - v * 100 mod t"
proof -
  have "v * 100 = t * (v * 100 div t) + v * 100 mod t" by simp
  then show ?thesis unfolding gap_of_def floor_percent_def by (simp add: algebra_simps)
qed

lemma gap_of_bounds:
  assumes "0 < t"
  shows "0 < gap_of t v" "gap_of t v \<le> t"
  using assms pos_mod_bound[of t "v * 100"] pos_mod_sign[of t "v * 100"]
  by (simp_all add: gap_of_eq)

lemma floor_percentages_ok:
  assumes "0 < t" "t \<le> int32_max" "\<forall>v\<in>set vs. 0 \<le> v \<and> v \<le> t"
  shows "floor_percentages t vs =
           Inr (map (floor_percent t) vs, map (gap_of t) vs, sum_list (map (floor_percent t) vs))"
  using assms(3)
proof (induction vs)
  case Nil
  then show ?case by simp
next
  case (Cons v vs)
  have v: "0 \<le> v" "v \<le> t" using Cons.prems by simp_all
  have r: "to_int32 (v * 100 sdiv t) = floor_percent t v"
    using floor_percent_bounds[OF assms(1) v] assms(1) v
    by (simp add: sdiv_nonneg floor_percent_def to_int32_id)
  have g: "to_int32 ((floor_percent t v + 1) * t - v * 100) = gap_of t v"
    using gap_of_bounds[OF assms(1), of v] assms(2)
    by (simp add: gap_of_def to_int32_id int32_max_def)
  have IH: "floor_percentages t vs =
           Inr (map (floor_percent t) vs, map (gap_of t) vs, sum_list (map (floor_percent t) vs))"
    using Cons by simp
  show ?case
    using floor_percent_bounds[OF assms(1) v] gap_of_bounds[OF assms(1), of v]
    by (simp add: Let_def r g IH)
qed

lemma floor_percent_times: "0 < t \<Longrightarrow> floor_percent t v * t \<le> v * 100"
  unfolding floor_percent_def
  using pos_mod_sign[of t "v * 100"] div_mult_mod_eq[of "v * 100" t] by linarith

lemma floor_percent_sum_times:
  "0 < t \<Longrightarrow> sum_list (map (floor_percent t) vs) * t \<le> sum_list vs * 100"
proof (induction vs)
  case Nil
  then show ?case by simp
next
  case (Cons v vs)
  then show ?case using floor_percent_times[of t v] by (simp add: algebra_simps)
qed

lemma floor_percent_sum_le:
  assumes "0 < t" "sum_list vs = t"
  shows "sum_list (map (floor_percent t) vs) \<le> 100"
proof -
  have "sum_list (map (floor_percent t) vs) * t \<le> 100 * t"
    using floor_percent_sum_times[OF assms(1), of vs] assms(2) by simp
  then show ?thesis using assms(1) by simp
qed

lemma member_le_sum_list:
  "\<forall>x\<in>set xs. (0::int) \<le> x \<Longrightarrow> y \<in> set xs \<Longrightarrow> y \<le> sum_list xs"
  by (induction xs) (auto simp: sum_list_nonneg add_increasing add_increasing2)

lemma bump_group_map:
  "bump_group vcs p (map f vcs) = map (\<lambda>v. if v = vcs ! nat p then f v + 1 else f v) vcs"
  by (simp add: bump_group_def zip_map2 zip_same_conv_map)

lemma sum_list_bump:
  "sum_list (map (\<lambda>v. if v = k then f v + 1 else f v) vcs) =
   sum_list (map f vcs) + int (count_list vcs k)"
  by (induction vcs) simp_all

lemma distribute_invariant:
  assumes "\<forall>option\<in>set opts. group_of vcs option"
    and "\<forall>v\<in>set vcs. 0 \<le> f v"
    and "0 \<le> left"
    and "sum_list (map f vcs) + left \<le> 100"
  shows "\<exists>g. distribute vcs opts left (map f vcs) = map g vcs \<and>
             (\<forall>v\<in>set vcs. 0 \<le> g v) \<and> sum_list (map g vcs) \<le> 100"
  using assms
proof (induction opts arbitrary: left f)
  case Nil
  then show ?case by auto
next
  case (Cons option opts)
  show ?case
  proof (cases "count option \<le> left")
    case False
    have "\<exists>g. distribute vcs opts left (map f vcs) = map g vcs \<and>
             (\<forall>v\<in>set vcs. 0 \<le> g v) \<and> sum_list (map g vcs) \<le> 100"
      using Cons.prems by (intro Cons.IH) simp_all
    then show ?thesis using False by simp
  next
    case True
    define k where "k = vcs ! nat (pos option)"
    define f' where "f' = (\<lambda>v. if v = k then f v + 1 else f v)"
    have cnt: "count option = int (count_list vcs k)"
      using Cons.prems(1) by (simp add: group_of_def k_def)
    have bump: "bump_group vcs (pos option) (map f vcs) = map f' vcs"
      by (simp add: bump_group_map f'_def k_def)
    have sum': "sum_list (map f' vcs) = sum_list (map f vcs) + count option"
      by (simp add: f'_def sum_list_bump cnt)
    have nonneg': "\<forall>v\<in>set vcs. 0 \<le> f' v"
      using Cons.prems(2) by (simp add: f'_def)
    have left': "0 \<le> left - count option" using True by simp
    have budget': "sum_list (map f' vcs) + (left - count option) \<le> 100"
      using Cons.prems(4) sum' by simp
    show ?thesis
    proof (cases "left - count option = 0")
      case True
      then have "distribute vcs (option # opts) left (map f vcs) = map f' vcs"
        using \<open>count option \<le> left\<close> by (simp add: bump)
      moreover have "sum_list (map f' vcs) \<le> 100" using budget' left' by simp
      ultimately show ?thesis using nonneg' by blast
    next
      case False
      have "\<exists>g. distribute vcs opts (left - count option) (map f' vcs) = map g vcs \<and>
             (\<forall>v\<in>set vcs. 0 \<le> g v) \<and> sum_list (map g vcs) \<le> 100"
        using Cons.prems(1) nonneg' left' budget' by (intro Cons.IH) simp_all
      then show ?thesis using False \<open>count option \<le> left\<close> by (simp add: bump)
    qed
  qed
qed

lemma groups_upto_step:
  assumes "groups_upto prefix m"
  shows "groups_upto (prefix @ [x])
           (m(x \<mapsto> \<lparr>pos = int (length prefix),
              count = count (case m x of None \<Rightarrow> default_Option | Some opt \<Rightarrow> opt) + 1\<rparr>))"
  unfolding groups_upto_def
proof (intro allI conjI impI)
  fix v
  assume "(m(x \<mapsto> \<lparr>pos = int (length prefix),
              count = count (case m x of None \<Rightarrow> default_Option | Some opt \<Rightarrow> opt) + 1\<rparr>)) v = None"
  then show "v \<notin> set (prefix @ [x])"
    using assms by (auto simp: groups_upto_def split: if_splits)
next
  fix v opt
  assume a: "(m(x \<mapsto> \<lparr>pos = int (length prefix),
              count = count (case m x of None \<Rightarrow> default_Option | Some opt \<Rightarrow> opt) + 1\<rparr>)) v = Some opt"
  show "count opt = int (count_list (prefix @ [x]) v)"
    using a assms
    by (cases "m x") (auto simp: groups_upto_def default_Option_def count_list_0_iff split: if_splits)
  show "0 \<le> pos opt"
    using a assms by (auto simp: groups_upto_def split: if_splits)
  show "nat (pos opt) < length (prefix @ [x])"
    using a assms by (auto simp: groups_upto_def less_Suc_eq split: if_splits)
  show "(prefix @ [x]) ! nat (pos opt) = v"
    using a assms by (auto simp: groups_upto_def nth_append split: if_splits)
qed

lemma build_options_invariant:
  "groups_upto prefix m \<Longrightarrow> groups_upto (prefix @ vs) (build_options (length prefix) vs m)"
proof (induction vs arbitrary: prefix m)
  case Nil
  then show ?case by simp
next
  case (Cons x vs)
  define m' where "m' = m(x \<mapsto> \<lparr>pos = int (length prefix),
              count = count (case m x of None \<Rightarrow> default_Option | Some opt \<Rightarrow> opt) + 1\<rparr>)"
  have "groups_upto (prefix @ [x]) m'"
    unfolding m'_def by (rule groups_upto_step[OF Cons.prems])
  then have "groups_upto ((prefix @ [x]) @ vs) (build_options (length (prefix @ [x])) vs m')"
    by (rule Cons.IH)
  moreover have "build_options (length prefix) (x # vs) m
                   = build_options (length (prefix @ [x])) vs m'"
    by (simp add: Let_def m'_def)
  ultimately show ?case by simp
qed

lemma build_options_groups: "groups_upto vcs (build_options 0 vcs Map.empty)"
  using build_options_invariant[of "[]" Map.empty vcs] by (simp add: groups_upto_def)

lemma build_options_group:
  assumes "build_options 0 vcs Map.empty v = Some opt"
  shows "group_of vcs opt"
  using build_options_groups[of vcs] assms by (simp add: group_of_def groups_upto_def)

lemma sorted_options_groups:
  "\<forall>option\<in>set (sorted_options order t vcs gap result). group_of vcs option"
  by (auto simp: sorted_options_def List.map_filter_def dest: build_options_group)

lemma fair_unfold:
  assumes "\<forall>v\<in>set voter_counts. 0 \<le> v"
    and "sum_list voter_counts \<le> total_count"
    and "sum_list voter_counts \<le> int32_max"
    and "0 < sum_list voter_counts"
  shows "get_vote_percentage order voter_counts total_count =
     (if sum_list (map (floor_percent (sum_list voter_counts)) voter_counts) = 100
      then Inr (map (floor_percent (sum_list voter_counts)) voter_counts)
      else Inr (distribute voter_counts
                  (sorted_options order (sum_list voter_counts) voter_counts
                     (map (gap_of (sum_list voter_counts)) voter_counts)
                     (map (floor_percent (sum_list voter_counts)) voter_counts))
                  (100 - sum_list (map (floor_percent (sum_list voter_counts)) voter_counts))
                  (map (floor_percent (sum_list voter_counts)) voter_counts)))"
proof -
  let ?t = "sum_list voter_counts"
  note sumv = sum_votes_total[OF assms(1,3)]
  have clamp: "get_vote_percentage order voter_counts total_count
                 = get_vote_percentage order voter_counts ?t"
  proof (cases "total_count > ?t")
    case True
    then show ?thesis by (simp add: get_vote_percentage_def sumv Let_def)
  next
    case False
    then have "total_count = ?t" using assms(2) by simp
    then show ?thesis by simp
  qed
  have bound: "\<forall>v\<in>set voter_counts. 0 \<le> v \<and> v \<le> ?t"
    using assms(1) member_le_sum_list[of voter_counts] by auto
  note fp = floor_percentages_ok[OF assms(4,3) bound]
  have ps_le: "sum_list (map (floor_percent ?t) voter_counts) \<le> 100"
    by (rule floor_percent_sum_le[OF assms(4)]) simp
  have "\<forall>v\<in>set voter_counts. 0 \<le> floor_percent ?t v"
    using bound floor_percent_bounds(1)[OF assms(4)] by blast
  then have ps_ge: "0 \<le> sum_list (map (floor_percent ?t) voter_counts)"
    by (intro sum_list_nonneg) auto
  show ?thesis
    unfolding clamp using assms(4) ps_le ps_ge
    by (simp add: get_vote_percentage_def sumv Let_def fp)
qed

lemma no_votes:
  assumes "\<forall>v\<in>set voter_counts. 0 \<le> v"
    and "sum_list voter_counts \<le> total_count"
    and "sum_list voter_counts = 0"
  shows "get_vote_percentage order voter_counts total_count
           = Inr (replicate (length voter_counts) 0)"
proof -
  have "sum_votes voter_counts 0 = Inr 0"
    using sum_votes_total[OF assms(1)] assms(3) by (simp add: int32_max_def)
  then show ?thesis
    using assms(2,3) by (simp add: get_vote_percentage_def)
qed

lemma fair_branch:
  assumes "\<forall>v\<in>set voter_counts. 0 \<le> v"
    and "sum_list voter_counts \<le> total_count"
    and "sum_list voter_counts \<le> int32_max"
  shows "\<exists>r. get_vote_percentage order voter_counts total_count = Inr r \<and>
             length r = length voter_counts \<and>
             (\<forall>p\<in>set r. 0 \<le> p \<and> p \<le> 100) \<and>
             sum_list r \<le> 100 \<and>
             (\<forall>i<length voter_counts. \<forall>j<length voter_counts.
                voter_counts ! i = voter_counts ! j \<longrightarrow> r ! i = r ! j)"
proof -
  let ?t = "sum_list voter_counts"
  let ?floors = "map (floor_percent ?t) voter_counts"
  have "\<exists>g. get_vote_percentage order voter_counts total_count = Inr (map g voter_counts) \<and>
          (\<forall>v\<in>set voter_counts. 0 \<le> g v) \<and> sum_list (map g voter_counts) \<le> 100"
  proof (cases "?t = 0")
    case True
    have "get_vote_percentage order voter_counts total_count
            = Inr (map (\<lambda>v. 0) voter_counts)"
      using no_votes[OF assms(1,2) True] by (simp add: map_replicate_const)
    then show ?thesis by (intro exI[of _ "\<lambda>v. 0"]) simp
  next
    case False
    have "0 \<le> ?t" using assms(1) by (simp add: sum_list_nonneg)
    then have tpos: "0 < ?t" using False by simp
    note unf = fair_unfold[OF assms(1,2,3) tpos, of order]
    have bound: "\<forall>v\<in>set voter_counts. 0 \<le> v \<and> v \<le> ?t"
      using assms(1) member_le_sum_list[of voter_counts] by auto
    have ps_le: "sum_list ?floors \<le> 100"
      by (rule floor_percent_sum_le[OF tpos]) simp
    have fnn: "\<forall>v\<in>set voter_counts. 0 \<le> floor_percent ?t v"
      using bound floor_percent_bounds(1)[OF tpos] by blast
    show ?thesis
    proof (cases "sum_list ?floors = 100")
      case True
      then have "get_vote_percentage order voter_counts total_count = Inr ?floors"
        by (simp add: unf)
      then show ?thesis using fnn ps_le by (intro exI[of _ "floor_percent ?t"]) simp
    next
      case ne: False
      define opts where "opts = sorted_options order ?t voter_counts
                     (map (gap_of ?t) voter_counts) ?floors"
      have eq: "get_vote_percentage order voter_counts total_count
            = Inr (distribute voter_counts opts (100 - sum_list ?floors) ?floors)"
        using ne by (simp add: unf opts_def)
      have "\<exists>g. distribute voter_counts opts (100 - sum_list ?floors) ?floors
                  = map g voter_counts \<and>
             (\<forall>v\<in>set voter_counts. 0 \<le> g v) \<and> sum_list (map g voter_counts) \<le> 100"
        using sorted_options_groups fnn ps_le
        by (intro distribute_invariant) (simp_all add: opts_def)
      then show ?thesis using eq by auto
    qed
  qed
  then obtain g where g: "get_vote_percentage order voter_counts total_count
        = Inr (map g voter_counts)"
     "\<forall>v\<in>set voter_counts. 0 \<le> g v" "sum_list (map g voter_counts) \<le> 100"
    by blast
  have "\<forall>p\<in>set (map g voter_counts). 0 \<le> p \<and> p \<le> 100"
  proof
    fix p assume p: "p \<in> set (map g voter_counts)"
    have allnn: "\<forall>x\<in>set (map g voter_counts). 0 \<le> x" using g(2) by auto
    from member_le_sum_list[OF allnn p] g(3) allnn p show "0 \<le> p \<and> p \<le> 100" by auto
  qed
  then show ?thesis using g by (intro exI[of _ "map g voter_counts"]) simp
qed

text \<open>
  Claim C1. For non-negative vote counts and a total voter count (an \<^verbatim>\<open>int32\<close>) that is at
  least their sum, \<open>get_vote_percentage\<close> returns a list of the same length whose entries
  lie between 0 and 100 and sum to at most 100, and two options with the same number of
  votes get the same percentage. This holds for every order in which the hash map of the
  groups is iterated.
\<close>

theorem get_vote_percentage_fair:
  assumes "\<forall>v\<in>set voter_counts. 0 \<le> v"
    and "sum_list voter_counts \<le> total_count"
    and "total_count \<le> int32_max"
  shows "\<exists>r. get_vote_percentage order voter_counts total_count = Inr r \<and>
             length r = length voter_counts \<and>
             (\<forall>p\<in>set r. 0 \<le> p \<and> p \<le> 100) \<and>
             sum_list r \<le> 100 \<and>
             (\<forall>i<length voter_counts. \<forall>j<length voter_counts.
                voter_counts ! i = voter_counts ! j \<longrightarrow> r ! i = r ! j)"
proof -
  have "sum_list voter_counts \<le> int32_max" using assms(2,3) by simp
  with assms(1,2) show ?thesis by (rule fair_branch)
qed

theorem get_vote_percentage_fair_witness:
  "\<exists>r. get_vote_percentage [1] [1, 1, 1] 3 = Inr r \<and>
       length r = length [1, 1, 1 :: int] \<and>
       (\<forall>p\<in>set r. 0 \<le> p \<and> p \<le> 100) \<and>
       sum_list r \<le> 100 \<and>
       (\<forall>i<length [1, 1, 1 :: int]. \<forall>j<length [1, 1, 1 :: int].
          [1, 1, 1 :: int] ! i = [1, 1, 1] ! j \<longrightarrow> r ! i = r ! j)"
proof -
  have "\<forall>v\<in>set [1, 1, 1 :: int]. 0 \<le> v" by simp
  moreover have "sum_list [1, 1, 1 :: int] \<le> 3" by simp
  moreover have "(3::int) \<le> int32_max" by (simp add: int32_max_def)
  ultimately show ?thesis by (rule get_vote_percentage_fair)
qed

lemma round_nearest_eq:
  assumes "0 < t" "0 \<le> v"
  shows "round_nearest t v = to_int32 ((v * 200 + t) div (2 * t))"
proof -
  have "(v * 200 + t) sdiv t = (v * 200 + t) div t"
    using assms by (intro sdiv_nonneg) simp_all
  moreover have "0 \<le> (v * 200 + t) div t"
    using assms by (simp add: pos_imp_zdiv_nonneg_iff)
  ultimately have "((v * 200 + t) sdiv t) sdiv 2 = (v * 200 + t) div t div 2"
    by (simp add: sdiv_nonneg)
  also have "\<dots> = (v * 200 + t) div (t * 2)"
    by (simp add: zdiv_zmult2_eq)
  finally show ?thesis by (simp add: round_nearest_def mult.commute)
qed

lemma round_nearest_bounds:
  fixes t v :: int
  assumes "0 < t" "0 \<le> v" "v \<le> t"
  shows "0 \<le> (v * 200 + t) div (2 * t)" "(v * 200 + t) div (2 * t) \<le> 100"
proof -
  let ?q = "(v * 200 + t) div (2 * t)"
  show "0 \<le> ?q"
    using assms by (simp add: pos_imp_zdiv_nonneg_iff)
  have low: "?q * (2 * t) \<le> v * 200 + t"
    using pos_mod_sign[of "2 * t" "v * 200 + t"] div_mult_mod_eq[of "v * 200 + t" "2 * t"] assms(1)
    by linarith
  have "\<not> 101 \<le> ?q"
  proof
    assume "101 \<le> ?q"
    then have "101 * (2 * t) \<le> ?q * (2 * t)"
      using assms(1) by (intro mult_right_mono) simp_all
    with low assms show False by linarith
  qed
  then show "?q \<le> 100" by simp
qed

text \<open>
  Claim C6, as amended. For non-negative vote counts whose sum fits \<^verbatim>\<open>int32\<close> and any total
  voter count, \<open>get_vote_percentage\<close> returns a list of the same length. When the total is
  at least the sum, or is 0, the entries lie between 0 and 100 and sum to at most 100.
  When the total is positive and smaller than the sum, each entry is the proportion
  rounded half up and then narrowed to \<^verbatim>\<open>int32\<close> (so it wraps for a count far above the
  total); for an option whose count does not exceed the total it is the proportion
  rounded half up itself and lies between 0 and 100. Nothing bounds the sum of the
  entries in that branch, and for a negative total only the length is stated.
\<close>

theorem get_vote_percentage_any_total:
  assumes "\<forall>v\<in>set voter_counts. 0 \<le> v"
    and "sum_list voter_counts \<le> int32_max"
  shows "\<exists>r. get_vote_percentage order voter_counts total_count = Inr r \<and>
             length r = length voter_counts \<and>
             (sum_list voter_counts \<le> total_count \<or> total_count = 0 \<longrightarrow>
                (\<forall>p\<in>set r. 0 \<le> p \<and> p \<le> 100) \<and> sum_list r \<le> 100) \<and>
             (0 < total_count \<and> total_count < sum_list voter_counts \<longrightarrow>
                (\<forall>i<length voter_counts.
                   r ! i = to_int32 ((voter_counts ! i * 200 + total_count)
                                       div (2 * total_count)) \<and>
                   (voter_counts ! i \<le> total_count \<longrightarrow>
                      r ! i = (voter_counts ! i * 200 + total_count) div (2 * total_count) \<and>
                      0 \<le> r ! i \<and> r ! i \<le> 100)))"
proof (cases "sum_list voter_counts \<le> total_count")
  case True
  from fair_branch[OF assms(1) True assms(2), of order] True show ?thesis by auto
next
  case False
  note sumv = sum_votes_total[OF assms]
  show ?thesis
  proof (cases "total_count = 0")
    case True
    have "get_vote_percentage order voter_counts total_count
            = Inr (replicate (length voter_counts) 0)"
      using True False by (simp add: get_vote_percentage_def sumv)
    then show ?thesis
      using True
      by (intro exI[of _ "replicate (length voter_counts) 0"]) (simp add: sum_list_replicate)
  next
    case nz: False
    have eq: "get_vote_percentage order voter_counts total_count
                = Inr (map (round_nearest total_count) voter_counts)"
      using False nz by (simp add: get_vote_percentage_def sumv)
    let ?r = "map (round_nearest total_count) voter_counts"
    have fb: "\<forall>i<length voter_counts.
            ?r ! i = to_int32 ((voter_counts ! i * 200 + total_count) div (2 * total_count)) \<and>
            (voter_counts ! i \<le> total_count \<longrightarrow>
               ?r ! i = (voter_counts ! i * 200 + total_count) div (2 * total_count) \<and>
               0 \<le> ?r ! i \<and> ?r ! i \<le> 100)"
      if pos: "0 < total_count"
    proof (intro allI impI)
      fix i assume i: "i < length voter_counts"
      then have v: "0 \<le> voter_counts ! i" using assms(1) by simp
      have e: "?r ! i
         = to_int32 ((voter_counts ! i * 200 + total_count) div (2 * total_count))"
        using i by (simp add: round_nearest_eq[OF pos v])
      have "?r ! i = (voter_counts ! i * 200 + total_count) div (2 * total_count) \<and>
            0 \<le> ?r ! i \<and> ?r ! i \<le> 100"
        if le: "voter_counts ! i \<le> total_count"
        unfolding e using round_nearest_bounds[OF pos v le] by (simp add: to_int32_id)
      with e show "?r ! i
           = to_int32 ((voter_counts ! i * 200 + total_count) div (2 * total_count)) \<and>
            (voter_counts ! i \<le> total_count \<longrightarrow>
               ?r ! i = (voter_counts ! i * 200 + total_count) div (2 * total_count) \<and>
               0 \<le> ?r ! i \<and> ?r ! i \<le> 100)"
        by blast
    qed
    have c1: "length ?r = length voter_counts" by simp
    have c2: "sum_list voter_counts \<le> total_count \<or> total_count = 0 \<longrightarrow>
                (\<forall>p\<in>set ?r. 0 \<le> p \<and> p \<le> 100) \<and> sum_list ?r \<le> 100"
      using False nz by simp
    have c3: "0 < total_count \<and> total_count < sum_list voter_counts \<longrightarrow>
                (\<forall>i<length voter_counts.
                   ?r ! i = to_int32 ((voter_counts ! i * 200 + total_count)
                                       div (2 * total_count)) \<and>
                   (voter_counts ! i \<le> total_count \<longrightarrow>
                      ?r ! i = (voter_counts ! i * 200 + total_count) div (2 * total_count) \<and>
                      0 \<le> ?r ! i \<and> ?r ! i \<le> 100))"
      using fb by blast
    show ?thesis
      by (rule exI[of _ ?r]) (intro conjI, rule eq, rule c1, rule c2, rule c3)
  qed
qed

theorem get_vote_percentage_any_total_witness:
  "\<exists>r. get_vote_percentage [1] [1, 1, 1] 2 = Inr r \<and>
       length r = length [1, 1, 1 :: int] \<and>
       (sum_list [1, 1, 1] \<le> (2::int) \<or> (2::int) = 0 \<longrightarrow>
          (\<forall>p\<in>set r. 0 \<le> p \<and> p \<le> 100) \<and> sum_list r \<le> 100) \<and>
       ((0::int) < 2 \<and> 2 < sum_list [1, 1, 1 :: int] \<longrightarrow>
          (\<forall>i<length [1, 1, 1 :: int].
             r ! i = to_int32 (([1, 1, 1] ! i * 200 + 2) div (2 * 2)) \<and>
             ([1, 1, 1] ! i \<le> (2::int) \<longrightarrow>
                r ! i = ([1, 1, 1] ! i * 200 + 2) div (2 * 2) \<and> 0 \<le> r ! i \<and> r ! i \<le> 100)))"
proof -
  have "\<forall>v\<in>set [1, 1, 1 :: int]. 0 \<le> v" by simp
  moreover have "sum_list [1, 1, 1 :: int] \<le> int32_max" by (simp add: int32_max_def)
  ultimately show ?thesis by (rule get_vote_percentage_any_total)
qed

text \<open>
  The claim as first stated fails in the rounding branch. Three options with one vote
  each and a total of 2 get 50 percent each, 150 together; one option with 5 votes and a
  total of 1 gets 500; and with the negative total -1 one vote gives -99.
\<close>

theorem get_vote_percentage_any_total_counterexample:
  "get_vote_percentage [1] [1, 1, 1] 2 = Inr [50, 50, 50] \<and> sum_list [50, 50, 50 :: int] > 100 \<and>
   get_vote_percentage [5] [5] 1 = Inr [500] \<and>
   get_vote_percentage [1] [1] (- 1) = Inr [- 99]"
  by (simp add: get_vote_percentage_def int32_max_def round_nearest_def to_int32_def
      signed_divide_int_def)

text \<open>
  The narrowing is seen at the largest count with a total of 1: the proportion rounded
  half up is 214748364700, and the entry returned is -100.
\<close>

lemma round_nearest_wraps:
  "get_vote_percentage [2147483647] [2147483647] 1 = Inr [- 100]"
  by (simp add: get_vote_percentage_def int32_max_def round_nearest_def to_int32_def
      signed_divide_int_def)

lemma sort_key_unique:
  fixes f :: "'a \<Rightarrow> 'b::linorder"
  assumes "distinct xs" "distinct ys" "set xs = set ys" "inj_on f (set xs)"
  shows "sort_key f xs = sort_key f ys"
proof -
  have "map f (sort_key f xs) = map f (sort_key f ys)"
  proof (rule sorted_distinct_set_unique)
    show "sorted (map f (sort_key f xs))" "sorted (map f (sort_key f ys))" by simp_all
    show "distinct (map f (sort_key f xs))" using assms(1,4) by (simp add: distinct_map)
    show "distinct (map f (sort_key f ys))" using assms(2,3,4) by (simp add: distinct_map)
    show "set (map f (sort_key f xs)) = set (map f (sort_key f ys))" using assms(3) by simp
  qed
  moreover have "inj_on f (set (sort_key f xs) \<union> set (sort_key f ys))"
    using assms(3,4) by simp
  ultimately show ?thesis by (simp add: inj_on_map_eq_map)
qed

lemma skipped_iff:
  assumes "0 < t" "groups_upto vcs m" "m v = Some opt"
  shows "skipped t (map (gap_of t) vcs) (map (floor_percent t) vcs) opt \<longleftrightarrow> \<not> eligible t v"
proof -
  have p: "nat (pos opt) < length vcs" "vcs ! nat (pos opt) = v"
    using assms(2,3) by (simp_all add: groups_upto_def)
  show ?thesis
    using assms(1) p
    by (auto simp: skipped_def eligible_def sdiv_nonneg smod_nonneg)
qed

lemma sort_rank_eq:
  assumes "groups_upto vcs m" "m v = Some opt"
  shows "sort_rank (map (gap_of t) vcs) opt = (gap_of t v, - int (count_list vcs v))"
  using assms by (simp add: sort_rank_def groups_upto_def)

lemma sorted_options_order:
  assumes "0 < sum_list vcs" "iteration_order vcs order1" "iteration_order vcs order2"
    and "tie_free vcs"
  shows "sorted_options order1 (sum_list vcs) vcs (map (gap_of (sum_list vcs)) vcs)
             (map (floor_percent (sum_list vcs)) vcs)
       = sorted_options order2 (sum_list vcs) vcs (map (gap_of (sum_list vcs)) vcs)
             (map (floor_percent (sum_list vcs)) vcs)"
proof -
  let ?t = "sum_list vcs"
  let ?m = "build_options 0 vcs Map.empty"
  let ?gap = "map (gap_of ?t) vcs"
  let ?res = "map (floor_percent ?t) vcs"
  let ?keep = "\<lambda>option. \<not> skipped ?t ?gap ?res option"
  have G: "groups_upto vcs ?m" by (rule build_options_groups)
  have dom: "\<And>v. v \<in> set vcs \<Longrightarrow> \<exists>opt. ?m v = Some opt"
    using G by (auto simp: groups_upto_def)
  have key: "\<And>v opt. ?m v = Some opt \<Longrightarrow> vcs ! nat (pos opt) = v"
    using G by (simp add: groups_upto_def)
  have inj: "inj_on (the \<circ> ?m) (set vcs)"
  proof (rule inj_onI)
    fix v w assume v: "v \<in> set vcs" and w: "w \<in> set vcs" and e: "(the \<circ> ?m) v = (the \<circ> ?m) w"
    from dom[OF v] obtain a where a: "?m v = Some a" by blast
    from dom[OF w] obtain b where b: "?m w = Some b" by blast
    from e a b have "a = b" by simp
    with key[OF a] key[OF b] show "v = w" by simp
  qed
  have mf: "List.map_filter ?m order = map (the \<circ> ?m) order" if "iteration_order vcs order" for order
  proof -
    have "\<forall>x\<in>set order. ?m x \<noteq> None"
      using that dom by (auto simp: iteration_order_def)
    then show ?thesis by (simp add: List.map_filter_def)
  qed
  let ?L = "\<lambda>order. filter ?keep (map (the \<circ> ?m) order)"
  have dist: "distinct (?L order)" if "iteration_order vcs order" for order
    using that inj by (auto simp: iteration_order_def distinct_map intro!: distinct_filter)
  have sets: "set (?L order1) = set (?L order2)"
    using assms(2,3) by (simp add: iteration_order_def)
  have rank_inj: "inj_on (sort_rank ?gap) (set (?L order1))"
  proof (rule inj_onI)
    fix a b
    assume a: "a \<in> set (?L order1)" and b: "b \<in> set (?L order1)"
      and e: "sort_rank ?gap a = sort_rank ?gap b"
    from a obtain v where v: "v \<in> set vcs" "a = the (?m v)" "?keep a"
      using assms(2) by (auto simp: iteration_order_def)
    from b obtain w where w: "w \<in> set vcs" "b = the (?m w)" "?keep b"
      using assms(2) by (auto simp: iteration_order_def)
    from dom[OF v(1)] v(2) have ma: "?m v = Some a" by auto
    from dom[OF w(1)] w(2) have mb: "?m w = Some b" by auto
    have ev: "eligible ?t v" using skipped_iff[OF assms(1) G ma] v(3) by simp
    have ew: "eligible ?t w" using skipped_iff[OF assms(1) G mb] w(3) by simp
    have "gap_of ?t v = gap_of ?t w \<and> count_list vcs v = count_list vcs w"
      using e by (simp add: sort_rank_eq[OF G ma] sort_rank_eq[OF G mb])
    then have "v = w"
      using assms(4) v(1) w(1) ev ew unfolding tie_free_def by blast
    then show "a = b" using v(2) w(2) by simp
  qed
  have "sort_key (sort_rank ?gap) (?L order1) = sort_key (sort_rank ?gap) (?L order2)"
    by (rule sort_key_unique[OF dist[OF assms(2)] dist[OF assms(3)] sets rank_inj])
  then show ?thesis
    by (simp add: sorted_options_def mf[OF assms(2)] mf[OF assms(3)])
qed

text \<open>
  In the model with an iteration order: when no two eligible groups tie on both gap and
  number of members, the result is the same for every iteration order.
\<close>

lemma get_vote_percentage_order_independent:
  assumes "\<forall>v\<in>set voter_counts. 0 \<le> v"
    and "sum_list voter_counts \<le> int32_max"
    and "iteration_order voter_counts order1"
    and "iteration_order voter_counts order2"
    and "tie_free voter_counts"
  shows "get_vote_percentage order1 voter_counts total_count
           = get_vote_percentage order2 voter_counts total_count"
proof (cases "sum_list voter_counts \<le> total_count \<and> 0 < sum_list voter_counts")
  case True
  then have le: "sum_list voter_counts \<le> total_count" and pos: "0 < sum_list voter_counts"
    by simp_all
  show ?thesis
    by (simp only: fair_unfold[OF assms(1) le assms(2) pos]
        sorted_options_order[OF pos assms(3) assms(4) assms(5)])
next
  case False
  note sumv = sum_votes_total[OF assms(1,2)]
  have "0 \<le> sum_list voter_counts" using assms(1) by (simp add: sum_list_nonneg)
  with False have "total_count < sum_list voter_counts \<or> sum_list voter_counts = 0"
    by auto
  then show ?thesis
    by (auto simp: get_vote_percentage_def sumv Let_def)
qed

subsection \<open>The library calls\<close>

text \<open>
  The comparator orders by \<open>sort_rank\<close>, so a sequence that \<^verbatim>\<open>std::sort\<close> may return is
  sorted by rank, and the example libraries meet \<open>library_ok\<close>.
\<close>

lemma sort_compare_iff: "sort_compare gap a b \<longleftrightarrow> sort_rank gap a < sort_rank gap b"
  by (auto simp: sort_compare_def sort_rank_def)

lemma sorted_wrt_compare:
  "sorted_wrt (\<lambda>a b. \<not> sort_compare gap b a) xs \<longleftrightarrow> sorted (map (sort_rank gap) xs)"
  by (simp add: sorted_map sort_compare_iff not_less)

lemma mset_insert_sorted: "mset (insert_sorted lt x ys) = add_mset x (mset ys)"
  by (induction ys) simp_all

lemma mset_insertion_sort: "mset (insertion_sort lt xs) = mset xs"
  by (induction xs) (simp_all add: insertion_sort_def mset_insert_sorted)

lemma set_insert_sorted: "set (insert_sorted lt x ys) = insert x (set ys)"
  by (induction ys) auto

lemma sorted_insert_sorted:
  fixes f :: "'a \<Rightarrow> 'b::linorder"
  assumes "sorted (map f ys)"
  shows "sorted (map f (insert_sorted (\<lambda>a b. f a < f b) x ys))"
  using assms
  by (induction ys) (auto simp: set_insert_sorted not_less)

lemma sorted_insertion_sort:
  fixes f :: "'a \<Rightarrow> 'b::linorder"
  shows "sorted (map f (insertion_sort (\<lambda>a b. f a < f b) xs))"
  by (induction xs) (simp_all add: insertion_sort_def sorted_insert_sorted)

lemma sort_compare_rank: "sort_compare gap = (\<lambda>a b. sort_rank gap a < sort_rank gap b)"
  by (intro ext) (simp add: sort_compare_iff)




lemma set_map_filter:
  "set (List.map_filter m xs) = {y. \<exists>k\<in>set xs. m k = Some y}"
  by (induction xs) (auto simp: map_filter_simps split: option.splits)

lemma map_filter_append:
  "List.map_filter f (xs @ ys) = List.map_filter f xs @ List.map_filter f ys"
  by (simp add: List.map_filter_def)

lemma map_filter_map_key:
  "(\<And>x. x \<in> set xs \<Longrightarrow> m (key x) = Some x) \<Longrightarrow> List.map_filter m (map key xs) = xs"
  by (induction xs) (simp_all add: map_filter_simps)

lemma reorder_keys:
  assumes key: "\<And>k y. m k = Some y \<Longrightarrow> key y = k"
    and S: "set S = set (filter keep (List.map_filter m it))"
  shows "filter keep (List.map_filter m (map key S @ filter (\<lambda>k. k \<notin> set (map key S)) it)) = S"
proof -
  have inS: "y \<in> set S \<longleftrightarrow> (\<exists>k\<in>set it. m k = Some y) \<and> keep y" for y
    by (simp add: S set_map_filter)
  have bk: "m (key y) = Some y" if "y \<in> set S" for y
  proof -
    from that inS obtain k where k: "m k = Some y" by blast
    with key[OF k] show ?thesis by simp
  qed
  have a: "List.map_filter m (map key S) = S"
    by (rule map_filter_map_key) (rule bk)
  have b: "filter keep S = S"
    using inS by (simp add: filter_id_conv)
  have "\<not> keep y" if "y \<in> set (List.map_filter m (filter (\<lambda>k. k \<notin> set (map key S)) it))" for y
  proof
    assume k: "keep y"
    from that obtain x where x: "x \<in> set it" "x \<notin> set (map key S)" "m x = Some y"
      unfolding set_map_filter by auto
    from x(1,3) k have "y \<in> set S" using inS by blast
    moreover have "key y = x" by (rule key[OF x(3)])
    ultimately have "x \<in> key ` set S" by blast
    with x(2) show False by simp
  qed
  then have c: "filter keep (List.map_filter m (filter (\<lambda>k. k \<notin> set (map key S)) it)) = []"
    by (simp add: filter_empty_conv)
  show ?thesis
    by (simp only: map_filter_append filter_append a b c append_Nil2)
qed


lemma reorder_keys_back:
  assumes key: "\<And>k y. m k = Some y \<Longrightarrow> key y = k"
    and S: "set S = set (filter keep (List.map_filter m it))"
    and y: "y \<in> set S"
  shows "m (key y) = Some y"
proof -
  from y S have "y \<in> set (List.map_filter m it)" by simp
  then obtain k where k: "m k = Some y" unfolding set_map_filter by blast
  from key[OF k] k show ?thesis by simp
qed

lemma reorder_keys_distinct:
  assumes key: "\<And>k y. m k = Some y \<Longrightarrow> key y = k"
    and S: "set S = set (filter keep (List.map_filter m it))"
    and d: "distinct S"
  shows "distinct (map key S)"
proof -
  have bk: "m (key y) = Some y" if "y \<in> set S" for y
    using key S that by (rule reorder_keys_back)
  have "inj_on key (set S)"
  proof (rule inj_onI)
    fix a b assume a: "a \<in> set S" and b: "b \<in> set S" and e: "key a = key b"
    have "Some a = m (key a)" by (simp only: bk[OF a])
    also have "\<dots> = m (key b)" by (simp only: e)
    also have "\<dots> = Some b" by (rule bk[OF b])
    finally show "a = b" by simp
  qed
  with d show ?thesis by (simp add: distinct_map)
qed

lemma library_refines_sorted:
  assumes "library_ok lib"
  shows "\<exists>order. iteration_order vcs order \<and>
           sorted_options_with lib t vcs gap result = sorted_options order t vcs gap result"
proof -
  let ?m = "build_options 0 vcs Map.empty"
  let ?keep = "\<lambda>option. \<not> skipped t gap result option"
  let ?it = "iterate_map lib vcs"
  let ?key = "\<lambda>option. vcs ! nat (pos option)"
  define L where "L = filter ?keep (List.map_filter ?m ?it)"
  define S where "S = std_sort lib (sort_compare gap) L"
  define rest where "rest = filter (\<lambda>k. k \<notin> set (map ?key S)) ?it"
  have G: "groups_upto vcs ?m" by (rule build_options_groups)
  have it: "distinct ?it" "set ?it = set vcs"
    using assms by (simp_all add: library_ok_def)
  have perm: "mset S = mset L" and srt: "sorted (map (sort_rank gap) S)"
    using assms by (simp_all add: library_ok_def sorted_wrt_compare S_def)
  have key: "?key opt = k" and key_in: "k \<in> set vcs" if "?m k = Some opt" for k opt
  proof -
    from G that have *: "nat (pos opt) < length vcs" "vcs ! nat (pos opt) = k"
      by (simp_all add: groups_upto_def)
    from * show "?key opt = k" by simp
    from * show "k \<in> set vcs" using nth_mem by blast
  qed
  have setS: "set S = set (filter ?keep (List.map_filter ?m ?it))"
    using mset_eq_setD[OF perm] by (simp only: L_def)
  have "filter ?keep (List.map_filter ?m (map ?key S @ rest)) = S"
    unfolding rest_def using key setS by (rule reorder_keys)
  then have eq: "sorted_options (map ?key S @ rest) t vcs gap result = S"
    using srt by (simp only: sorted_options_def sort_key_id_if_sorted)
  have dom: "\<exists>opt. ?m k = Some opt" if "k \<in> set vcs" for k
    using G that by (auto simp: groups_upto_def)
  have distL: "distinct L"
  proof -
    have "inj_on (the \<circ> ?m) (set ?it)"
    proof (rule inj_onI)
      fix a b assume a: "a \<in> set ?it" and b: "b \<in> set ?it"
        and e: "(the \<circ> ?m) a = (the \<circ> ?m) b"
      from dom a it(2) obtain x where x: "?m a = Some x" by blast
      from dom b it(2) obtain y where y: "?m b = Some y" by blast
      from e x y have "x = y" by simp
      with key[OF x] key[OF y] show "a = b" by simp
    qed
    then have "inj_on (the \<circ> ?m) (set (filter (\<lambda>x. ?m x \<noteq> None) ?it))"
      by (rule inj_on_subset) simp
    then have "distinct (map (the \<circ> ?m) (filter (\<lambda>x. ?m x \<noteq> None) ?it))"
      using it(1) by (simp only: distinct_map distinct_filter simp_thms)
    then have "distinct (List.map_filter ?m ?it)" by (simp only: List.map_filter_def)
    then show ?thesis unfolding L_def by (rule distinct_filter)
  qed
  have distS: "distinct S" using mset_eq_imp_distinct_iff[OF perm] distL by simp
  have bk: "?m (?key y) = Some y" if "y \<in> set S" for y
    using key setS that by (rule reorder_keys_back)
  have d1: "distinct (map ?key S)"
    using key setS distS by (rule reorder_keys_distinct)
  have d2: "distinct rest" unfolding rest_def using it(1) by (rule distinct_filter)
  have d3: "set (map ?key S) \<inter> set rest = {}" unfolding rest_def by auto
  have sub: "set (map ?key S) \<subseteq> set vcs"
  proof
    fix k assume "k \<in> set (map ?key S)"
    then obtain y where y: "y \<in> set S" "k = ?key y" by auto
    from key_in[OF bk[OF y(1)]] y(2) show "k \<in> set vcs" by simp
  qed
  have "set (map ?key S @ rest) = set vcs"
    using sub it(2) unfolding rest_def by auto
  with d1 d2 d3 have "iteration_order vcs (map ?key S @ rest)"
    by (simp only: iteration_order_def distinct_append simp_thms)
  moreover have "sorted_options_with lib t vcs gap result = S"
    by (simp only: sorted_options_with_def S_def L_def)
  ultimately show ?thesis using eq by (intro exI[of _ "map ?key S @ rest"]) simp
qed


lemma get_vote_percentage_with_cong:
  assumes "\<And>vsum result gap percent_sum.
             sum_votes vcs 0 = Inr vsum \<Longrightarrow>
             floor_percentages (if t > vsum then vsum else t) vcs = Inr (result, gap, percent_sum) \<Longrightarrow>
             sorted_options_with lib (if t > vsum then vsum else t) vcs gap result
               = sorted_options order (if t > vsum then vsum else t) vcs gap result"
  shows "get_vote_percentage_with lib vcs t = get_vote_percentage order vcs t"
proof (cases "sum_votes vcs 0")
  case (Inl e)
  then show ?thesis by (simp add: get_vote_percentage_with_def get_vote_percentage_def)
next
  case (Inr vsum)
  define T where "T = (if t > vsum then vsum else t)"
  have l: "get_vote_percentage_with lib vcs t =
     (if T = 0 then Inr (replicate (length vcs) 0)
      else if T \<noteq> vsum then Inr (map (round_nearest T) vcs)
      else (case floor_percentages T vcs of
              Inl e \<Rightarrow> Inl e
            | Inr (result, gap, percent_sum) \<Rightarrow>
                if \<not> (0 \<le> percent_sum \<and> percent_sum \<le> 100) then Inl CheckFailed
                else if percent_sum = 100 then Inr result
                else Inr (distribute vcs (sorted_options_with lib T vcs gap result)
                            (100 - percent_sum) result)))"
    unfolding T_def by (simp only: get_vote_percentage_with_def Inr sum.case Let_def)
  have r: "get_vote_percentage order vcs t =
     (if T = 0 then Inr (replicate (length vcs) 0)
      else if T \<noteq> vsum then Inr (map (round_nearest T) vcs)
      else (case floor_percentages T vcs of
              Inl e \<Rightarrow> Inl e
            | Inr (result, gap, percent_sum) \<Rightarrow>
                if \<not> (0 \<le> percent_sum \<and> percent_sum \<le> 100) then Inl CheckFailed
                else if percent_sum = 100 then Inr result
                else Inr (distribute vcs (sorted_options order T vcs gap result)
                            (100 - percent_sum) result)))"
    unfolding T_def by (simp only: get_vote_percentage_def Inr sum.case Let_def)
  show ?thesis
  proof (cases "floor_percentages T vcs")
    case (Inl e)
    show ?thesis unfolding l r by (simp only: Inl sum.case)
  next
    case (Inr triple)
    obtain result gap percent_sum where triple: "triple = (result, gap, percent_sum)"
      by (cases triple) auto
    from assms[OF \<open>sum_votes vcs 0 = Inr vsum\<close>, of result gap percent_sum] Inr
    have "sorted_options_with lib T vcs gap result = sorted_options order T vcs gap result"
      unfolding T_def triple by simp
    then show ?thesis unfolding l r by (simp only: Inr triple sum.case prod.case)
  qed
qed

lemma library_refines:
  assumes "library_ok lib"
  shows "\<exists>order. iteration_order vcs order \<and>
           get_vote_percentage_with lib vcs t = get_vote_percentage order vcs t"
proof (cases "\<exists>vsum result gap percent_sum. sum_votes vcs 0 = Inr vsum \<and>
          floor_percentages (if t > vsum then vsum else t) vcs = Inr (result, gap, percent_sum)")
  case True
  then obtain vsum result gap percent_sum where v: "sum_votes vcs 0 = Inr vsum"
    and f: "floor_percentages (if t > vsum then vsum else t) vcs = Inr (result, gap, percent_sum)"
    by blast
  from library_refines_sorted[OF assms, of vcs "if t > vsum then vsum else t" gap result]
  obtain order where o: "iteration_order vcs order"
    and e: "sorted_options_with lib (if t > vsum then vsum else t) vcs gap result
              = sorted_options order (if t > vsum then vsum else t) vcs gap result"
    by blast
  have "get_vote_percentage_with lib vcs t = get_vote_percentage order vcs t"
  proof (rule get_vote_percentage_with_cong)
    fix vsum' result' gap' percent_sum'
    assume v': "sum_votes vcs 0 = Inr vsum'"
      and f': "floor_percentages (if t > vsum' then vsum' else t) vcs = Inr (result', gap', percent_sum')"
    from v v' have vs: "vsum' = vsum" by simp
    from f f'[unfolded vs] have "result' = result" "gap' = gap" by simp_all
    then show "sorted_options_with lib (if t > vsum' then vsum' else t) vcs gap' result'
            = sorted_options order (if t > vsum' then vsum' else t) vcs gap' result'"
      unfolding vs by (simp only: e)
  qed
  with o show ?thesis by blast
next
  case False
  have "get_vote_percentage_with lib vcs t = get_vote_percentage (remdups vcs) vcs t"
    by (rule get_vote_percentage_with_cong) (use False in blast)
  moreover have "iteration_order vcs (remdups vcs)" by (simp add: iteration_order_def)
  ultimately show ?thesis by blast
qed



text \<open>
  When no two eligible groups tie on both gap and number of members, the result is the
  same with every library.
\<close>

lemma get_vote_percentage_library_independent:
  assumes "\<forall>v\<in>set voter_counts. 0 \<le> v"
    and "sum_list voter_counts \<le> int32_max"
    and "library_ok lib1" and "library_ok lib2"
    and "tie_free voter_counts"
  shows "get_vote_percentage_with lib1 voter_counts total_count
           = get_vote_percentage_with lib2 voter_counts total_count"
proof -
  from library_refines[OF assms(3)] obtain order1 where
    o1: "iteration_order voter_counts order1"
    and e1: "get_vote_percentage_with lib1 voter_counts total_count
               = get_vote_percentage order1 voter_counts total_count" by blast
  from library_refines[OF assms(4)] obtain order2 where
    o2: "iteration_order voter_counts order2"
    and e2: "get_vote_percentage_with lib2 voter_counts total_count
               = get_vote_percentage order2 voter_counts total_count" by blast
  from get_vote_percentage_order_independent[OF assms(1,2) o1 o2 assms(5)] e1 e2
  show ?thesis by simp
qed

text \<open>
  What is proved for every iteration order holds for a run with a library: for a total
  at least the sum of the votes the result is fair.
\<close>

lemma get_vote_percentage_with_fair:
  assumes "library_ok lib"
    and "\<forall>v\<in>set voter_counts. 0 \<le> v"
    and "sum_list voter_counts \<le> total_count"
    and "total_count \<le> int32_max"
  shows "\<exists>r. get_vote_percentage_with lib voter_counts total_count = Inr r \<and>
             length r = length voter_counts \<and>
             (\<forall>p\<in>set r. 0 \<le> p \<and> p \<le> 100) \<and>
             sum_list r \<le> 100 \<and>
             (\<forall>i<length voter_counts. \<forall>j<length voter_counts.
                voter_counts ! i = voter_counts ! j \<longrightarrow> r ! i = r ! j)"
proof -
  from library_refines[OF assms(1)] obtain order where
    e: "get_vote_percentage_with lib voter_counts total_count
          = get_vote_percentage order voter_counts total_count" by blast
  have "sum_list voter_counts \<le> int32_max" using assms(3,4) by simp
  with assms(2,3) show ?thesis unfolding e by (rule fair_branch)
qed

text \<open>
  With a tie the library decides which group is served first. For the votes 1, 3 and
  196 the groups of 1 and of 3 have the same gap and one member each, and one percent is
  left to give: a library that visits the newest key first gives it to the group of 3,
  one that visits the oldest key first to the group of 1.
\<close>

lemma oldest_first_library_ok: "library_ok oldest_first_library"
  unfolding library_ok_def
proof (intro conjI allI)
  fix keys :: "int list"
  show "distinct (iterate_map oldest_first_library keys)"
    by (simp add: oldest_first_library_def)
  show "set (iterate_map oldest_first_library keys) = set keys"
    by (simp add: oldest_first_library_def)
next
  fix gap xs
  show "mset (std_sort oldest_first_library (sort_compare gap) xs) = mset xs"
    by (simp add: oldest_first_library_def mset_insertion_sort)
  show "sorted_wrt (\<lambda>a b. \<not> sort_compare gap b a)
          (std_sort oldest_first_library (sort_compare gap) xs)"
    unfolding sorted_wrt_compare
    by (simp add: oldest_first_library_def sort_compare_rank sorted_insertion_sort)
qed

lemma tie_break_of_library:
  "get_vote_percentage_with example_library [1, 3, 196] 200 = Inr [0, 2, 98]"
  "get_vote_percentage_with oldest_first_library [1, 3, 196] 200 = Inr [1, 1, 98]"
  by code_simp+

section \<open>Proofs: the poll manager\<close>

lemma fold_set_value:
  "fold set_value ps s = s\<lparr>promise_results := promise_results s @ map (\<lambda>p. (p, Ok ())) ps\<rparr>"
  by (induction ps arbitrary: s) (simp_all add: set_value_def)

lemma fold_set_result:
  "fold (\<lambda>promise. set_result promise r) ps s
     = s\<lparr>promise_results := promise_results s @ map (\<lambda>p. (p, r)) ps\<rparr>"
  by (induction ps arbitrary: s) (simp_all add: set_result_def)

lemma word_less_succ:
  fixes g c :: "'a::len word"
  assumes "g \<le> c" "c \<noteq> - 1"
  shows "g < c + 1"
  using assms inc_less_eq_self_iff_eq by fastforce

lemma translate_options_valid:
  "translate_options poll_options option_ids = Some chosen \<Longrightarrow>
   \<forall>i\<in>set option_ids. 0 \<le> i \<and> nat i < length poll_options"
  by (induction option_ids arbitrary: chosen) (auto split: if_splits option.splits)

lemma translate_options_invalid:
  assumes "\<exists>i\<in>set option_ids. i < 0 \<or> length poll_options \<le> nat i"
  shows "translate_options poll_options option_ids = None"
proof (cases "translate_options poll_options option_ids")
  case None
  then show ?thesis .
next
  case (Some chosen)
  from translate_options_valid[OF Some] assms show ?thesis by fastforce
qed

lemma set_error_rejects:
  "r = Inr (set_error promise e s) \<Longrightarrow>
   \<exists>e. r = Inr (s\<lparr>promise_results := promise_results s @ [(promise, Error e)]\<rparr>)"
  unfolding set_error_def by blast

text \<open>The operations that touch the pending answers keep \<open>pending_wf\<close>.\<close>

lemma pending_wf_do_set_poll_answer:
  assumes "pending_wf s"
    and "do_set_poll_answer poll_id full_message_id chosen logevent_id promise s = Inr s'"
  shows "pending_wf s'"
  using assms
  by (auto simp: pending_wf_def do_set_poll_answer_def log_poll_answer_def supersede_def Let_def
      binlog_add_def binlog_rewrite_def cancel_query_def fold_set_value send_closure_def
      notify_on_poll_update_def
      split: if_splits option.splits sum.splits prod.splits)

lemma pending_wf_on_set_poll_answer:
  assumes "pending_wf s"
    and "on_set_poll_answer poll_id generation result s = Inr s'"
  shows "pending_wf s'"
  using assms
  by (auto simp: pending_wf_def on_set_poll_answer_def Let_def binlog_erase_def fold_set_result
      split: if_splits option.splits)

lemma pending_wf_store_query_ref:
  "pending_wf s \<Longrightarrow> pending_wf (store_query_ref poll_id query_ref s)"
  by (auto simp: pending_wf_def store_query_ref_def split: option.splits if_splits)

text \<open>
  A submission that does not join one in flight leaves, once its query is created, a
  record that is in flight: the invariant holds after a first submission and again
  after each superseding one.
\<close>

lemma new_submission_in_flight:
  assumes "\<not> (\<exists>pa. pending_answers s poll_id = Some pa \<and> pa_promises pa \<noteq> [] \<and>
                  pa_options pa = chosen)"
    and "current_generation s \<noteq> - 1"
    and "do_set_poll_answer poll_id full_message_id chosen 0 promise s = Inr s'"
  shows "\<exists>pa. pending_answers (store_query_ref poll_id query_ref s') poll_id = Some pa \<and>
              in_flight (store_query_ref poll_id query_ref s') pa"
proof -
  have nz: "current_generation s + 1 \<noteq> 0"
    using assms(2) by (metis add.commute add_eq_0_iff)
  show ?thesis
  proof (cases "pending_answers s poll_id")
    case None
    then show ?thesis
      using assms(3) nz
      by (auto simp: do_set_poll_answer_def log_poll_answer_def supersede_def Let_def
          default_PendingAnswer_def binlog_add_def send_closure_def notify_on_poll_update_def
          store_query_ref_def in_flight_def
          split: if_splits option.splits)
  next
    case (Some pa)
    then show ?thesis
      using assms(1,3) nz
      by (auto simp: do_set_poll_answer_def log_poll_answer_def supersede_def Let_def
          binlog_add_def binlog_rewrite_def cancel_query_def fold_set_value
          send_closure_def notify_on_poll_update_def
          store_query_ref_def in_flight_def
          split: if_splits option.splits)
  qed
qed

lemma pending_wf_set_error: "pending_wf (set_error promise e s) = pending_wf s"
  by (simp add: pending_wf_def set_error_def)

lemma pending_wf_set_poll_answer:
  assumes "pending_wf s"
    and "set_poll_answer poll_id full_message_id option_ids promise s = Inr s'"
  shows "pending_wf s'"
  using assms pending_wf_do_set_poll_answer[OF assms(1)]
  by (auto simp: set_poll_answer_def pending_wf_set_error split: if_splits option.splits)

lemma pending_wf_example_state: "pending_wf example_state"
  by (simp add: pending_wf_def example_state_def)

lemma example_voting_state_reached:
  "map_sum id (store_query_ref 7 5) (set_poll_answer 7 (3, 4) [] 1 example_state)
     = Inr example_voting_state"
  by (simp add: set_poll_answer_def do_set_poll_answer_def log_poll_answer_def supersede_def
      is_local_poll_id_def int32_min_def get_poll_def example_state_def example_poll_def
      example_voting_state_def example_pending_answer_def default_PendingAnswer_def binlog_add_def Let_def
      notify_on_poll_update_def send_closure_def store_query_ref_def)

lemma example_voting_state_pending:
  "pending_answers example_voting_state 7 = Some example_pending_answer"
  by (simp add: example_voting_state_def example_pending_answer_def)

lemma example_voting_state_wf: "pending_wf example_voting_state"
  by (simp add: pending_wf_def example_voting_state_def example_pending_answer_def)

text \<open>
  Claim C2. When a submission with options \<open>pa_options pa\<close> is in flight for a poll and
  a submission with other options arrives (the 64-bit counter not being at its last
  value), every promise of the first is resolved with success, and the poll is left with
  one pending answer, which holds the new options, the new promise alone and a
  generation strictly larger than that of the first.
\<close>

theorem do_set_poll_answer_supersedes:
  assumes "pending_answers s poll_id = Some pa"
    and "in_flight s pa"
    and "pa_options pa \<noteq> chosen"
    and "current_generation s \<noteq> - 1"
  shows "\<exists>s' pa'. do_set_poll_answer poll_id full_message_id chosen 0 promise s = Inr s' \<and>
           promise_results s' = promise_results s @ map (\<lambda>p. (p, Ok ())) (pa_promises pa) \<and>
           pending_answers s' poll_id = Some pa' \<and>
           pa_options pa' = chosen \<and> pa_promises pa' = [promise] \<and>
           pa_generation pa < pa_generation pa' \<and>
           pa_generation pa' = current_generation s' \<and>
           (\<forall>other. other \<noteq> poll_id \<longrightarrow> pending_answers s' other = pending_answers s other)"
proof -
  from assms(2) obtain query_ref where q: "pa_query_ref pa = Some query_ref"
    and ne: "pa_promises pa \<noteq> []" and g0: "pa_generation pa \<noteq> 0"
    and le: "pa_generation pa \<le> current_generation s"
    and lg: "use_message_db s \<longrightarrow> pa_logevent_id pa \<noteq> 0"
    by (auto simp: in_flight_def)
  have lt: "pa_generation pa < current_generation s + 1"
    by (rule word_less_succ[OF le assms(4)])
  show ?thesis
  proof (cases "use_message_db s")
    case True
    with lg have "pa_logevent_id pa \<noteq> 0" by simp
    then show ?thesis
      using assms(1,3) q ne g0 lt True
      by (simp add: do_set_poll_answer_def log_poll_answer_def supersede_def Let_def
          binlog_rewrite_def cancel_query_def fold_set_value send_closure_def
          notify_on_poll_update_def split: option.split)
  next
    case False
    then show ?thesis
      using assms(1,3) q ne g0 lt
      by (simp add: do_set_poll_answer_def log_poll_answer_def supersede_def Let_def
          cancel_query_def fold_set_value send_closure_def
          notify_on_poll_update_def split: option.split)
  qed
qed

theorem do_set_poll_answer_supersedes_witness:
  "\<exists>s' pa'. do_set_poll_answer 7 (3, 4) [''0''] 0 2 example_voting_state = Inr s' \<and>
     promise_results s' = promise_results example_voting_state @
        map (\<lambda>p. (p, Ok ())) (pa_promises example_pending_answer) \<and>
     pending_answers s' 7 = Some pa' \<and>
     pa_options pa' = [''0''] \<and> pa_promises pa' = [2] \<and>
     pa_generation example_pending_answer < pa_generation pa' \<and>
     pa_generation pa' = current_generation s' \<and>
     (\<forall>other. other \<noteq> 7 \<longrightarrow> pending_answers s' other = pending_answers example_voting_state other)"
proof -
  have "in_flight example_voting_state example_pending_answer"
    by (simp add: in_flight_def example_voting_state_def example_pending_answer_def)
  moreover have "pa_options example_pending_answer \<noteq> [''0'']"
    by (simp add: example_pending_answer_def)
  moreover have "current_generation example_voting_state \<noteq> - 1"
    by (simp add: example_voting_state_def example_pending_answer_def)
  ultimately show ?thesis
    by (rule do_set_poll_answer_supersedes[OF example_voting_state_pending])
qed

text \<open>
  Claim C3. When the poll has no pending answer, or the generation of the response is
  not the generation of its pending answer, \<open>on_set_poll_answer\<close> returns the state as it
  was: polls, pending answers, promises, log and every recorded effect.
\<close>

theorem on_set_poll_answer_stale:
  assumes "pending_wf s"
    and "pending_answers s poll_id = None \<or>
         (\<exists>pa. pending_answers s poll_id = Some pa \<and> pa_generation pa \<noteq> generation)"
  shows "on_set_poll_answer poll_id generation result s = Inr s"
  using assms by (auto simp: on_set_poll_answer_def pending_wf_def)

theorem on_set_poll_answer_stale_witness:
  "on_set_poll_answer 7 2 (Error (Status 500 ''Internal'')) example_voting_state
     = Inr example_voting_state"
proof -
  have "pending_answers example_voting_state 7 = None \<or>
        (\<exists>pa. pending_answers example_voting_state 7 = Some pa \<and> pa_generation pa \<noteq> 2)"
    by (simp add: example_voting_state_def example_pending_answer_def)
  with example_voting_state_wf show ?thesis by (rule on_set_poll_answer_stale)
qed

text \<open>
  Claim C4. With more than one option index, or a local poll id, or a closed poll, or an
  option index outside the options of the poll, \<open>set_poll_answer\<close> resolves the promise
  with an error and changes nothing else; in particular nothing is sent.
\<close>

theorem set_poll_answer_rejects:
  assumes "length option_ids > 1 \<or> is_local_poll_id poll_id \<or>
           (\<exists>poll. polls s poll_id = Some poll \<and>
              (is_closed poll \<or> (\<exists>i\<in>set option_ids. i < 0 \<or> length (options poll) \<le> nat i)))"
  shows "\<exists>e. set_poll_answer poll_id full_message_id option_ids promise s
               = Inr (s\<lparr>promise_results := promise_results s @ [(promise, Error e)]\<rparr>)"
proof (cases "length option_ids > 1")
  case True
  then show ?thesis by (intro set_error_rejects) (simp add: set_poll_answer_def)
next
  case short: False
  show ?thesis
  proof (cases "is_local_poll_id poll_id")
    case True
    then show ?thesis using short by (intro set_error_rejects) (simp add: set_poll_answer_def)
  next
    case remote: False
    from assms short remote obtain poll where poll: "polls s poll_id = Some poll"
      and bad: "is_closed poll \<or> (\<exists>i\<in>set option_ids. i < 0 \<or> length (options poll) \<le> nat i)"
      by blast
    show ?thesis
    proof (cases "is_closed poll")
      case True
      then show ?thesis
        using short remote poll
        by (intro set_error_rejects) (simp add: set_poll_answer_def get_poll_def)
    next
      case False
      with bad have "translate_options (options poll) option_ids = None"
        by (intro translate_options_invalid) simp
      then show ?thesis
        using short remote poll False
        by (intro set_error_rejects) (simp add: set_poll_answer_def get_poll_def)
    qed
  qed
qed

theorem set_poll_answer_rejects_witness:
  "\<exists>e. set_poll_answer 7 (3, 4) [5] 1 example_state
          = Inr (example_state\<lparr>promise_results := promise_results example_state @ [(1, Error e)]\<rparr>)"
proof -
  have "length [5::int] > 1 \<or> is_local_poll_id 7 \<or>
        (\<exists>poll. polls example_state 7 = Some poll \<and>
           (is_closed poll \<or> (\<exists>i\<in>set [5::int]. i < 0 \<or> length (options poll) \<le> nat i)))"
    by (simp add: example_state_def example_poll_def)
  then show ?thesis by (rule set_poll_answer_rejects)
qed

text \<open>
  Claim C10, as amended. On an open poll with a server id, \<open>set_poll_answer\<close> accepts an
  empty list of option indices. With no pending answer for the poll, and also when it
  supersedes a submission in flight with other options, it sends
  \<^verbatim>\<open>SetPollAnswerActor::send\<close> with no option identifiers and resolves no promise with an
  error. When an empty selection is already in flight, the promise joins its promises
  and nothing is sent.
\<close>

theorem set_poll_answer_empty:
  assumes "\<not> is_local_poll_id poll_id"
    and "polls s poll_id = Some poll"
    and "\<not> is_closed poll"
  shows "(pending_answers s poll_id = None \<longrightarrow>
            (\<exists>s'. set_poll_answer poll_id full_message_id [] promise s = Inr s' \<and>
               promise_results s' = promise_results s \<and>
               sent_closures s' = sent_closures s @
                 [SetPollAnswerActor_send poll_id full_message_id [] (current_generation s + 1)])) \<and>
         (\<forall>pa. pending_answers s poll_id = Some pa \<and> in_flight s pa \<and> pa_options pa \<noteq> [] \<longrightarrow>
            (\<exists>s'. set_poll_answer poll_id full_message_id [] promise s = Inr s' \<and>
               promise_results s' = promise_results s @ map (\<lambda>p. (p, Ok ())) (pa_promises pa) \<and>
               sent_closures s' = sent_closures s @
                 [SetPollAnswerActor_send poll_id full_message_id [] (current_generation s + 1)])) \<and>
         (\<forall>pa. pending_answers s poll_id = Some pa \<and> pa_promises pa \<noteq> [] \<and> pa_options pa = [] \<longrightarrow>
            set_poll_answer poll_id full_message_id [] promise s
              = Inr (s\<lparr>pending_answers := (pending_answers s)(poll_id \<mapsto>
                        pa\<lparr>pa_promises := pa_promises pa @ [promise]\<rparr>)\<rparr>))"
proof -
  have eq: "set_poll_answer poll_id full_message_id [] promise s
              = do_set_poll_answer poll_id full_message_id [] 0 promise s"
    using assms by (simp add: set_poll_answer_def get_poll_def)
  have idle: "\<exists>s'. do_set_poll_answer poll_id full_message_id [] 0 promise s = Inr s' \<and>
               promise_results s' = promise_results s \<and>
               sent_closures s' = sent_closures s @
                 [SetPollAnswerActor_send poll_id full_message_id [] (current_generation s + 1)]"
    if "pending_answers s poll_id = None"
    using that
    by (simp add: do_set_poll_answer_def log_poll_answer_def supersede_def Let_def
        default_PendingAnswer_def binlog_add_def send_closure_def notify_on_poll_update_def
        split: option.split)
  have busy: "\<exists>s'. do_set_poll_answer poll_id full_message_id [] 0 promise s = Inr s' \<and>
               promise_results s' = promise_results s @ map (\<lambda>p. (p, Ok ())) (pa_promises pa) \<and>
               sent_closures s' = sent_closures s @
                 [SetPollAnswerActor_send poll_id full_message_id [] (current_generation s + 1)]"
    if "pending_answers s poll_id = Some pa" "in_flight s pa" "pa_options pa \<noteq> []" for pa
  proof -
    from that(2) obtain query_ref where "pa_query_ref pa = Some query_ref"
      by (auto simp: in_flight_def)
    then show ?thesis
      using that
      by (auto simp: do_set_poll_answer_def log_poll_answer_def supersede_def Let_def
          in_flight_def binlog_rewrite_def cancel_query_def fold_set_value send_closure_def
          notify_on_poll_update_def split: option.split)
  qed
  have joined: "do_set_poll_answer poll_id full_message_id [] 0 promise s
              = Inr (s\<lparr>pending_answers := (pending_answers s)(poll_id \<mapsto>
                        pa\<lparr>pa_promises := pa_promises pa @ [promise]\<rparr>)\<rparr>)"
    if "pending_answers s poll_id = Some pa" "pa_promises pa \<noteq> []" "pa_options pa = []" for pa
    using that by (simp add: do_set_poll_answer_def)
  show ?thesis unfolding eq using idle busy joined by blast
qed

theorem set_poll_answer_empty_witness:
  "\<exists>s'. set_poll_answer 7 (3, 4) [] 1 example_state = Inr s' \<and>
         promise_results s' = promise_results example_state \<and>
         sent_closures s' = sent_closures example_state @
           [SetPollAnswerActor_send 7 (3, 4) [] (current_generation example_state + 1)]"
proof -
  have "\<not> is_local_poll_id 7" by (simp add: is_local_poll_id_def)
  moreover have "polls example_state 7 = Some example_poll" by (simp add: example_state_def)
  moreover have "\<not> is_closed example_poll" by (simp add: example_poll_def)
  ultimately have "pending_answers example_state 7 = None \<longrightarrow>
            (\<exists>s'. set_poll_answer 7 (3, 4) [] 1 example_state = Inr s' \<and>
               promise_results s' = promise_results example_state \<and>
               sent_closures s' = sent_closures example_state @
                 [SetPollAnswerActor_send 7 (3, 4) [] (current_generation example_state + 1)])"
    by (rule set_poll_answer_empty[THEN conjunct1])
  then show ?thesis by (simp add: example_state_def)
qed

text \<open>
  The claim as first stated fails when an empty selection is already in flight: the
  second submission sends nothing.
\<close>

theorem set_poll_answer_empty_counterexample:
  "set_poll_answer 7 (3, 4) [] 2 example_voting_state
     = Inr (example_voting_state\<lparr>pending_answers :=
              [7 \<mapsto> \<lparr>pa_options = [], pa_promises = [1, 2], pa_generation = 1,
                    pa_logevent_id = 1, pa_query_ref = Some 5\<rparr>]\<rparr>) \<and>
   sent_closures (example_voting_state\<lparr>pending_answers :=
              [7 \<mapsto> \<lparr>pa_options = [], pa_promises = [1, 2], pa_generation = 1,
                    pa_logevent_id = 1, pa_query_ref = Some 5\<rparr>]\<rparr>)
     = sent_closures example_voting_state"
  by (simp add: set_poll_answer_def do_set_poll_answer_def
      is_local_poll_id_def int32_min_def get_poll_def example_state_def example_poll_def
      example_voting_state_def example_pending_answer_def)

text \<open>
  Claim C7. \<open>stop_poll\<close> on a poll with a server id whose closed flag is set resolves the
  promise with success and changes nothing else: no closure is sent, no log event is
  added, the poll and the generation counter stay as they were.
\<close>

theorem stop_poll_closed:
  assumes "\<not> is_local_poll_id poll_id"
    and "polls s poll_id = Some poll"
    and "is_closed poll"
  shows "stop_poll poll_id full_message_id promise s
           = Inr (s\<lparr>promise_results := promise_results s @ [(promise, Ok ())]\<rparr>)"
  using assms by (simp add: stop_poll_def set_value_def)

theorem stop_poll_closed_witness:
  "stop_poll 7 (3, 4) 1 example_closed_state
     = Inr (example_closed_state\<lparr>promise_results :=
              promise_results example_closed_state @ [(1, Ok ())]\<rparr>)"
proof -
  have "\<not> is_local_poll_id 7" by (simp add: is_local_poll_id_def)
  moreover have "polls example_closed_state 7 = Some (example_poll\<lparr>is_closed := True\<rparr>)"
    by (simp add: example_closed_state_def)
  moreover have "is_closed (example_poll\<lparr>is_closed := True\<rparr>)" by simp
  ultimately show ?thesis by (rule stop_poll_closed)
qed

text \<open>
  Claim C9. For an open poll and an account that is not a bot, a failed fetch adds a
  timeout with a fresh polling interval, and a successful fetch whose generation is not
  the current one sets the timeout to 0. For a closed poll neither call is made.
\<close>

theorem on_get_poll_results_rearm:
  assumes "polls s poll_id = Some poll"
  shows "(\<not> is_closed poll \<and> \<not> is_bot s \<longrightarrow>
            on_get_poll_results poll_id generation (Error e) random s
              = Inr (s\<lparr>timeout_calls := timeout_calls s @
                        [AddTimeoutIn poll_id (get_polling_timeout s random)]\<rparr>)) \<and>
         (\<not> is_closed poll \<and> \<not> is_bot s \<and> generation \<noteq> current_generation s \<longrightarrow>
            on_get_poll_results poll_id generation (Ok updates) random s
              = Inr (s\<lparr>timeout_calls := timeout_calls s @ [SetTimeoutIn poll_id 0]\<rparr>)) \<and>
         (is_closed poll \<longrightarrow>
            on_get_poll_results poll_id generation (Error e) random s = Inr s \<and>
            (generation \<noteq> current_generation s \<longrightarrow>
               on_get_poll_results poll_id generation (Ok updates) random s = Inr s))"
  using assms
  by (simp add: on_get_poll_results_def get_poll_is_closed_def get_poll_def add_timeout_in_def
      set_timeout_in_def)

theorem on_get_poll_results_rearm_witness:
  "on_get_poll_results 7 0 (Error (Status 500 ''Internal'')) 85 example_voting_state
     = Inr (example_voting_state\<lparr>timeout_calls := [AddTimeoutIn 7 51]\<rparr>) \<and>
   on_get_poll_results 7 0 (Ok 9) 85 example_voting_state
     = Inr (example_voting_state\<lparr>timeout_calls := [SetTimeoutIn 7 0]\<rparr>)"
proof -
  have "polls example_voting_state 7 = Some example_poll"
    by (simp add: example_voting_state_def example_pending_answer_def example_state_def)
  from on_get_poll_results_rearm[OF this, of 0 "Status 500 ''Internal''" 85 9]
  show ?thesis
    by (simp add: example_voting_state_def example_pending_answer_def example_state_def example_poll_def
        get_polling_timeout_def)
qed

text \<open>
  Where the reported count differs from the stored one, the clamps do their work (for a
  poll with so few options that the ceiling is at least 1).
\<close>

lemma merge_voters_clamps:
  assumes "data option = option_of poll_result"
    and "voters_of poll_result \<noteq> voter_count option"
    and "1 \<le> max_voter_count n"
    and "merge_voters is_min n poll_result (option, poll_total, is_changed)
           = (option', poll_total', is_changed')"
  shows "0 \<le> voter_count option' \<and> (is_chosen option' \<longrightarrow> 1 \<le> voter_count option') \<and>
         voter_count option' \<le> poll_total'"
  using assms
  by (auto simp: merge_voters_def Let_def split: if_splits)

text \<open>
  Claim C8 says that after a merge every chosen option has at least one voter and no
  option has more voters than the poll. The clamps that would give this stand under the
  test that the reported count differs from the stored one. Here the server marks an
  option with a stored count of 0 as chosen and reports 0 voters for it: the flag is
  taken, the count is not raised to 1, and the poll is saved with a chosen option that
  has no voter.
\<close>

theorem on_get_poll_chosen_without_voters:
  "on_get_poll 7 None (Some chosen_without_voters) 100 example_state
     = Inr (7, example_state\<lparr>polls := [7 \<mapsto> example_poll_chosen],
                 database := [7 \<mapsto> example_poll_chosen],
                 content_updates := [(3, 4)],
                 timeout_calls := [SetTimeoutIn 7 60]\<rparr>)"
  by (simp add: on_get_poll_def resolve_poll_id_def is_valid_def is_local_poll_id_def
      get_poll_force_def merge_poll_results_def merge_voters_def max_voter_count_def
      int32_max_def Let_def set_timeout_in_def get_polling_timeout_def save_poll_def
      notify_on_poll_update_def example_state_def example_poll_def example_poll_chosen_def
      chosen_without_voters_def)

text \<open>
  The same test lets the total fall below the voters of an option: the reported total of
  3 is taken, and the option, whose reported count of 5 is the stored one, is not looked
  at again.
\<close>

lemma on_get_poll_total_below_option:
  "on_get_poll 7 None (Some total_below_option) 100
       (example_state\<lparr>polls := [7 \<mapsto> example_poll_voted]\<rparr>)
     = Inr (7, example_state\<lparr>polls := [7 \<mapsto> example_poll_voted\<lparr>total_voter_count := 3\<rparr>],
                 database := [7 \<mapsto> example_poll_voted\<lparr>total_voter_count := 3\<rparr>],
                 content_updates := [(3, 4)],
                 timeout_calls := [SetTimeoutIn 7 60]\<rparr>)"
  by (simp add: on_get_poll_def resolve_poll_id_def is_valid_def is_local_poll_id_def
      get_poll_force_def merge_poll_results_def merge_voters_def max_voter_count_def
      int32_max_def Let_def set_timeout_in_def get_polling_timeout_def save_poll_def
      notify_on_poll_update_def example_state_def example_poll_def example_poll_voted_def
      total_below_option_def)

text \<open>
  With a stored count of 5 the same report of no voter for the chosen option is clamped:
  the count becomes 1 and the total is raised to it.
\<close>

lemma on_get_poll_clamps_chosen:
  "on_get_poll 7 None (Some chosen_without_voters) 100
       (example_state\<lparr>polls := [7 \<mapsto> example_poll_voted]\<rparr>)
     = Inr (7, example_state\<lparr>polls := [7 \<mapsto> example_poll_voted\<lparr>options :=
                   [\<lparr>option_text = ''A'', data = ''0'', voter_count = 1, is_chosen = True\<rparr>,
                    \<lparr>option_text = ''B'', data = ''1'', voter_count = 0, is_chosen = False\<rparr>],
                   total_voter_count := 1\<rparr>],
                 database := [7 \<mapsto> example_poll_voted\<lparr>options :=
                   [\<lparr>option_text = ''A'', data = ''0'', voter_count = 1, is_chosen = True\<rparr>,
                    \<lparr>option_text = ''B'', data = ''1'', voter_count = 0, is_chosen = False\<rparr>],
                   total_voter_count := 1\<rparr>],
                 content_updates := [(3, 4)],
                 timeout_calls := [SetTimeoutIn 7 60]\<rparr>)"
  by (simp add: on_get_poll_def resolve_poll_id_def is_valid_def is_local_poll_id_def
      get_poll_force_def merge_poll_results_def merge_voters_def max_voter_count_def
      int32_max_def Let_def set_timeout_in_def get_polling_timeout_def save_poll_def
      notify_on_poll_update_def example_state_def example_poll_def example_poll_voted_def
      chosen_without_voters_def signed_divide_int_def)

end
